theory Spec2Isabelle
  imports Main "HOL-Library.Word" "HOL-Library.AList" "HOL-Library.Multiset" "HOL-Library.Sublist"
begin

section \<open>Python values, exceptions and byte strings\<close>

text \<open>
  A \<open>bytes\<close> object is a list of 8-bit words, a \<open>str\<close> a list of characters, a
  \<open>dict\<close> an association list in insertion order. An operation that can raise returns
  \<open>py_error + 'a\<close>, with \<open>Inl\<close> for the exception.
\<close>

type_synonym byte = "8 word"
type_synonym bytes = "byte list"

datatype py_error = IndexError | StructError | ValueError | TypeError | KeyError

definition ebind :: "py_error + 'a \<Rightarrow> ('a \<Rightarrow> py_error + 'b) \<Rightarrow> py_error + 'b" where
  "ebind m f = (case m of Inl e \<Rightarrow> Inl e | Inr x \<Rightarrow> f x)"

text \<open>\<open>xs[i]\<close> for an index that is never negative.\<close>

definition py_index :: "'a list \<Rightarrow> nat \<Rightarrow> py_error + 'a" where
  "py_index xs i = (if i < length xs then Inr (xs ! i) else Inl IndexError)"

text \<open>\<open>xs[a:b]\<close> for constants \<open>0 \<le> a \<le> b\<close>; \<open>xs[a:]\<close> is \<open>drop a xs\<close>.\<close>

definition py_slice :: "'a list \<Rightarrow> nat \<Rightarrow> nat \<Rightarrow> 'a list" where
  "py_slice xs a b = take (b - a) (drop a xs)"

text \<open>\<open>bs.rstrip(b'\x00')\<close>.\<close>

definition rstrip_nul :: "bytes \<Rightarrow> bytes" where
  "rstrip_nul bs = rev (dropWhile (\<lambda>b. b = 0) (rev bs))"

text \<open>\<open>bs.decode('ascii', errors='ignore')\<close>: every byte above 0x7f is dropped.\<close>

definition decode_ascii_ignore :: "bytes \<Rightarrow> string" where
  "decode_ascii_ignore bs = map (\<lambda>b. char_of (unat b)) (filter (\<lambda>b. unat b < 128) bs)"

definition hexdigit :: "nat \<Rightarrow> char" where
  "hexdigit n = ''0123456789abcdef'' ! n"

text \<open>\<open>bs.hex()\<close>: two lowercase digits a byte.\<close>

definition hex_bytes :: "bytes \<Rightarrow> string" where
  "hex_bytes bs = concat (map (\<lambda>b. [hexdigit (unat b div 16), hexdigit (unat b mod 16)]) bs)"

text \<open>\<open>str(n)\<close> for an integer that is not negative, and for any integer.\<close>

fun str_nat :: "nat \<Rightarrow> string" where
  "str_nat n = (if n < 10 then [char_of (48 + n)] else str_nat (n div 10) @ [char_of (48 + n mod 10)])"

definition str_int :: "int \<Rightarrow> string" where
  "str_int k = (if k < 0 then CHR ''-'' # str_nat (nat (- k)) else str_nat (nat k))"

text \<open>\<open>struct.unpack\<close> of one little-endian integer of \<open>n\<close> bytes: the slice must hold
  exactly \<open>n\<close> bytes, else \<open>struct.error\<close>.\<close>

fun le_nat :: "bytes \<Rightarrow> nat" where
  "le_nat [] = 0"
| "le_nat (b # bs) = unat b + 256 * le_nat bs"

definition unpack_unsigned :: "nat \<Rightarrow> bytes \<Rightarrow> py_error + nat" where
  "unpack_unsigned n bs = (if length bs = n then Inr (le_nat bs) else Inl StructError)"

definition unpack_signed :: "nat \<Rightarrow> bytes \<Rightarrow> py_error + int" where
  "unpack_signed n bs =
     (if length bs = n
      then Inr (let v = int (le_nat bs) in if v < 2 ^ (8 * n - 1) then v else v - 2 ^ (8 * n))
      else Inl StructError)"

text \<open>\<open>int(c)\<close> for a one-character string: a decimal digit, else \<open>ValueError\<close>.\<close>

definition int_of_digit :: "char \<Rightarrow> py_error + nat" where
  "int_of_digit c =
     (let k = (of_char c :: nat) in if 48 \<le> k \<and> k \<le> 57 then Inr (k - 48) else Inl ValueError)"

section \<open>nvs\_read: the structured record\<close>

text \<open>The value of an entry: an integer, a string (text or hex), or the dict of a BLOB\_IDX
  entry (size, chunk\_count, chunk\_start).\<close>

datatype py_value = IntV int | StrV string | DictV nat nat nat

text \<open>The dict \<open>entry_data\<close>. The keys \<open>value\<close> and \<open>size\<close> are set by the type branch
  only, so they are optional.\<close>

record nvs_entry =
  e_key :: string
  e_type :: string
  e_namespace :: string
  e_span :: nat
  e_chunk_index :: nat
  e_value :: "py_value option"
  e_size :: "nat option"

type_synonym namespace_table = "(nat \<times> string) list"

definition nvs_types :: "(nat \<times> string) list" where
  "nvs_types =
     [(0x01, ''U8''), (0x11, ''I8''), (0x02, ''U16''), (0x12, ''I16''),
      (0x04, ''U32''), (0x14, ''I32''), (0x08, ''U64''), (0x18, ''I64''),
      (0x21, ''STR''), (0x41, ''BLOB''), (0x42, ''BLOB_DATA''), (0x48, ''BLOB_IDX''),
      (0xFF, ''ANY'')]"

definition nvs_sector_states :: "(nat \<times> string) list" where
  "nvs_sector_states =
     [(0xFFFFFFFF, ''EMPTY''), (0xFFFFFFFE, ''ACTIVE''), (0xFFFFFFFC, ''FULL''),
      (0xFFFFFFF8, ''FREEING''), (0xFFFFFFF0, ''CORRUPT'')]"

text \<open>\<open>namespaces.get(entry_ns, f"NS_{entry_ns}")\<close>.\<close>

definition namespace_name :: "namespace_table \<Rightarrow> nat \<Rightarrow> string" where
  "namespace_name namespaces entry_ns =
     (case map_of namespaces entry_ns of Some name \<Rightarrow> name | None \<Rightarrow> ''NS_'' @ str_nat entry_ns)"

text \<open>The loop \<open>for x in range(1, entry_span)\<close> that collects the continuation slots.\<close>

fun data_chunks_loop :: "bytes list \<Rightarrow> nat \<Rightarrow> nat list \<Rightarrow> bytes list \<Rightarrow> py_error + bytes list" where
  "data_chunks_loop entries i [] data_chunks = Inr data_chunks"
| "data_chunks_loop entries i (x # xs) data_chunks =
     (if i + x \<ge> 126 then Inr data_chunks
      else ebind (py_index entries (i + x))
             (\<lambda>chunk. data_chunks_loop entries i xs (data_chunks @ [chunk])))"

text \<open>
  The type branches of \<open>parse_nvs_entries\<close> (the \<open>if\<close>/\<open>elif\<close> chain on
  \<open>nvs_types[entry_type]\<close>) and what follows them. The result is what one pass through
  the \<open>try\<close> body leaves: the entry appended to \<open>result\<close> (if any), the namespace table
  and the next slot index.
\<close>

definition decode_value ::
  "bytes list \<Rightarrow> namespace_table \<Rightarrow> nat \<Rightarrow> nvs_entry \<Rightarrow> nat \<Rightarrow> bytes
     \<Rightarrow> py_error + (nvs_entry option \<times> namespace_table \<times> nat)" where
  "decode_value entries namespaces i entry_data entry_ns data =
    (let type_name = e_type entry_data; entry_span = e_span entry_data in
     if type_name = ''U8'' then
       ebind (unpack_unsigned 1 (py_slice data 0 1)) (\<lambda>v.
         Inr (Some (entry_data\<lparr>e_value := Some (IntV (int v))\<rparr>),
              (if entry_ns = 0 then AList.update v (e_key entry_data) namespaces else namespaces),
              i + entry_span))
     else if type_name = ''I8'' then
       ebind (unpack_signed 1 (py_slice data 0 1)) (\<lambda>v.
         Inr (Some (entry_data\<lparr>e_value := Some (IntV v)\<rparr>), namespaces, i + entry_span))
     else if type_name = ''U16'' then
       ebind (unpack_unsigned 2 (py_slice data 0 2)) (\<lambda>v.
         Inr (Some (entry_data\<lparr>e_value := Some (IntV (int v))\<rparr>), namespaces, i + entry_span))
     else if type_name = ''I16'' then
       ebind (unpack_signed 2 (py_slice data 0 2)) (\<lambda>v.
         Inr (Some (entry_data\<lparr>e_value := Some (IntV v)\<rparr>), namespaces, i + entry_span))
     else if type_name = ''U32'' then
       ebind (unpack_unsigned 4 (py_slice data 0 4)) (\<lambda>v.
         Inr (Some (entry_data\<lparr>e_value := Some (IntV (int v))\<rparr>), namespaces, i + entry_span))
     else if type_name = ''I32'' then
       ebind (unpack_signed 4 (py_slice data 0 4)) (\<lambda>v.
         Inr (Some (entry_data\<lparr>e_value := Some (IntV v)\<rparr>), namespaces, i + entry_span))
     else if type_name = ''U64'' then
       ebind (unpack_unsigned 8 (py_slice data 0 8)) (\<lambda>v.
         Inr (Some (entry_data\<lparr>e_value := Some (IntV (int v))\<rparr>), namespaces, i + entry_span))
     else if type_name = ''I64'' then
       ebind (unpack_signed 8 (py_slice data 0 8)) (\<lambda>v.
         Inr (Some (entry_data\<lparr>e_value := Some (IntV v)\<rparr>), namespaces, i + entry_span))
     else if type_name \<in> set [''STR'', ''BLOB'', ''BLOB_DATA''] then
       ebind (unpack_unsigned 2 (py_slice data 0 2)) (\<lambda>sz.
         if sz > 4032 then Inr (None, namespaces, i + entry_span)
         else
           ebind (data_chunks_loop entries i [1..<entry_span] [drop 8 data]) (\<lambda>data_chunks.
             let combined_data = take sz (concat data_chunks) in
             Inr (Some (entry_data
                    \<lparr>e_value := Some (StrV (if type_name = ''STR''
                                             then decode_ascii_ignore combined_data
                                             else hex_bytes combined_data)),
                     e_size := Some sz\<rparr>),
                  namespaces, i + entry_span)))
     else if type_name = ''BLOB_IDX'' then
       ebind (unpack_unsigned 4 (py_slice data 0 4)) (\<lambda>sz.
       ebind (unpack_unsigned 1 (py_slice data 5 6)) (\<lambda>chunk_count.
       ebind (unpack_unsigned 1 (py_slice data 6 7)) (\<lambda>chunk_start.
         Inr (Some (entry_data\<lparr>e_value := Some (DictV sz chunk_count chunk_start)\<rparr>),
              namespaces, i + entry_span))))
     else if type_name = ''ANY'' then Inr (None, namespaces, i + 1)
     else Inr (Some entry_data, namespaces, i + entry_span))"

text \<open>
  The body of the \<open>try\<close> in \<open>parse_nvs_entries\<close> for slot \<open>i\<close>: \<open>Inl\<close> is an exception
  raised inside it. The only statement that changes \<open>namespaces\<close> is the last one of the
  U8 branch that can run before \<open>result.append\<close>, so an exception leaves the table as it
  was.
\<close>

definition parse_slot ::
  "bytes list \<Rightarrow> string \<Rightarrow> namespace_table \<Rightarrow> nat
     \<Rightarrow> py_error + (nvs_entry option \<times> namespace_table \<times> nat)" where
  "parse_slot entries entry_state_bitmap namespaces i =
     ebind (py_index entry_state_bitmap i) (\<lambda>c.
     ebind (int_of_digit c) (\<lambda>state.
       if state \<noteq> 2 then Inr (None, namespaces, i + 1)
       else
         ebind (py_index entries i) (\<lambda>entry.
         ebind (py_index entry 0) (\<lambda>b0.
         ebind (py_index entry 1) (\<lambda>b1.
         ebind (py_index entry 2) (\<lambda>b2.
         ebind (py_index entry 3) (\<lambda>b3.
           let entry_ns = unat b0; entry_type = unat b1; entry_span = unat b2;
               chunk_index = unat b3;
               key = rstrip_nul (py_slice entry 8 24);
               data = drop 24 entry
           in
             case map_of nvs_types entry_type of
               None \<Rightarrow> Inr (None, namespaces, i + 1)
             | Some type_name \<Rightarrow>
                 if entry_span < 1 \<or> entry_span > 126 - i then Inr (None, namespaces, i + 1)
                 else
                   decode_value entries namespaces i
                     \<lparr>e_key = decode_ascii_ignore key, e_type = type_name,
                      e_namespace = namespace_name namespaces entry_ns,
                      e_span = entry_span, e_chunk_index = chunk_index,
                      e_value = None, e_size = None\<rparr>
                     entry_ns data)))))))"

text \<open>One iteration of the \<open>while\<close> loop: the \<open>except\<close> handler advances by one slot.\<close>

definition parse_step ::
  "bytes list \<Rightarrow> string \<Rightarrow> namespace_table \<Rightarrow> nat \<Rightarrow> nvs_entry option \<times> namespace_table \<times> nat" where
  "parse_step entries entry_state_bitmap namespaces i =
     (case parse_slot entries entry_state_bitmap namespaces i of
        Inl e \<Rightarrow> (None, namespaces, i + 1)
      | Inr r \<Rightarrow> r)"

lemma ebind_simps:
  "ebind (Inl e) f = Inl e"
  "ebind (Inr x) f = f x"
  by (simp_all add: ebind_def)

lemma ebind_eq_Inr:
  "ebind m f = Inr y \<longleftrightarrow> (\<exists>x. m = Inr x \<and> f x = Inr y)"
  by (cases m) (simp_all add: ebind_def)

lemma decode_value_advances:
  assumes "decode_value entries namespaces i entry_data entry_ns data = Inr (appended, namespaces', i')"
    and "1 \<le> e_span entry_data"
  shows "i < i'"
  using assms unfolding decode_value_def Let_def
  apply (simp only: split: if_split_asm) 
  apply (simp_all add: ebind_eq_Inr)
  apply auto
    apply (simp_all split: if_split_asm)
  apply (simp_all add: ebind_eq_Inr)
    apply auto
  done

lemma parse_slot_advances:
  assumes "parse_slot entries entry_state_bitmap namespaces i = Inr (appended, namespaces', i')"
  shows "i < i'"
proof -
  from assms obtain c state where c: "py_index entry_state_bitmap i = Inr c"
    and st: "int_of_digit c = Inr state"
    unfolding parse_slot_def by (auto simp: ebind_eq_Inr)
  show ?thesis
  proof (cases "state = 2")
    case False
    with assms c st show ?thesis
      unfolding parse_slot_def by (simp add: ebind_simps)
  next
    case True
    with assms c st obtain entry b0 b1 b2 b3 where
      e: "py_index entries i = Inr entry" "py_index entry 0 = Inr b0" "py_index entry 1 = Inr b1"
         "py_index entry 2 = Inr b2" "py_index entry 3 = Inr b3"
      unfolding parse_slot_def by (auto simp: ebind_eq_Inr ebind_simps)
    show ?thesis
    proof (cases "map_of nvs_types (unat b1)")
      case None
      with assms c st True e show ?thesis
        unfolding parse_slot_def by (simp add: ebind_simps Let_def)
    next
      case (Some type_name)
      show ?thesis
      proof (cases "unat b2 < 1 \<or> unat b2 > 126 - i")
        case True
        with assms c st \<open>state = 2\<close> e Some show ?thesis
          unfolding parse_slot_def by (simp add: ebind_simps Let_def)
      next
        case False
        with assms c st \<open>state = 2\<close> e Some show ?thesis
          unfolding parse_slot_def
          by (simp add: ebind_simps Let_def) (erule decode_value_advances, simp)
      qed
    qed
  qed
qed

lemma parse_step_advances:
  assumes "parse_step entries entry_state_bitmap namespaces i = (appended, namespaces', i')"
  shows "i < i'"
  using assms
  by (auto simp: parse_step_def split: sum.splits dest: parse_slot_advances)

text \<open>
  The \<open>while i < 126\<close> loop of \<open>parse_nvs_entries\<close>, with \<open>result\<close> and the table
  \<open>namespaces\<close> (which the source mutates in place) passed along.
\<close>

function parse_loop ::
  "bytes list \<Rightarrow> string \<Rightarrow> nat \<Rightarrow> namespace_table \<Rightarrow> nvs_entry list
     \<Rightarrow> nvs_entry list \<times> namespace_table" where
  "parse_loop entries entry_state_bitmap i namespaces result =
     (if i < 126 then
        (case parse_step entries entry_state_bitmap namespaces i of
           (appended, namespaces', i') \<Rightarrow>
             parse_loop entries entry_state_bitmap i' namespaces'
               (case appended of None \<Rightarrow> result | Some entry_data \<Rightarrow> result @ [entry_data]))
      else (result, namespaces))"
  by pat_completeness auto
termination
  by (relation "measure (\<lambda>(entries, entry_state_bitmap, i, namespaces, result). 126 - i)")
     (auto dest!: parse_step_advances [OF sym])

definition parse_nvs_entries ::
  "bytes list \<Rightarrow> string \<Rightarrow> namespace_table \<Rightarrow> nvs_entry list \<times> namespace_table" where
  "parse_nvs_entries entries entry_state_bitmap namespaces =
     parse_loop entries entry_state_bitmap 0 namespaces []"

text \<open>The number of iterations the loop makes from slot index \<open>i\<close> on.\<close>

function parse_iterations :: "bytes list \<Rightarrow> string \<Rightarrow> nat \<Rightarrow> namespace_table \<Rightarrow> nat" where
  "parse_iterations entries entry_state_bitmap i namespaces =
     (if i < 126 then
        (case parse_step entries entry_state_bitmap namespaces i of
           (appended, namespaces', i') \<Rightarrow>
             Suc (parse_iterations entries entry_state_bitmap i' namespaces'))
      else 0)"
  by pat_completeness auto
termination
  by (relation "measure (\<lambda>(entries, entry_state_bitmap, i, namespaces). 126 - i)")
     (auto dest!: parse_step_advances [OF sym])

declare parse_loop.simps [simp del]
declare parse_iterations.simps [simp del]

section \<open>nvs\_read: pages\<close>

text \<open>
  The file handle is the file's bytes and a position. \<open>fh.read(n)\<close> returns the bytes
  read (fewer than \<open>n\<close> at the end of the file) and the new position.
\<close>

definition fh_read :: "bytes \<Rightarrow> nat \<Rightarrow> nat \<Rightarrow> bytes \<times> nat" where
  "fh_read f pos n = (let bs = take n (drop pos f) in (bs, pos + length bs))"

text \<open>\<open>f"{n:08x}"\<close>: lowercase hexadecimal, padded with zeros to eight digits.\<close>

fun hex_nat :: "nat \<Rightarrow> string" where
  "hex_nat n = (if n < 16 then [hexdigit n] else hex_nat (n div 16) @ [hexdigit (n mod 16)])"

definition hex08 :: "nat \<Rightarrow> string" where
  "hex08 n = replicate (8 - length (hex_nat n)) CHR ''0'' @ hex_nat n"

text \<open>The loop \<open>for entry_num in range(126)\<close> that decodes the state bitmap into a string
  of 126 digits.\<close>

fun decode_bitmap_loop :: "bytes \<Rightarrow> nat list \<Rightarrow> string \<Rightarrow> py_error + string" where
  "decode_bitmap_loop entry_state_bitmap [] decoded = Inr decoded"
| "decode_bitmap_loop entry_state_bitmap (entry_num # rest) decoded =
     (let bitnum = entry_num * 2; byte_index = bitnum div 8 in
      ebind (py_index entry_state_bitmap byte_index) (\<lambda>temp.
        decode_bitmap_loop entry_state_bitmap rest
          (decoded @ str_nat ((unat temp div 2 ^ (6 - bitnum mod 8)) mod 4))))"

definition decode_bitmap :: "bytes \<Rightarrow> py_error + string" where
  "decode_bitmap entry_state_bitmap = decode_bitmap_loop entry_state_bitmap [0..<126] []"

text \<open>The loop \<open>for i in range(126)\<close> that reads the slots: it stops at the first read
  that returns fewer than 32 bytes.\<close>

fun read_entries :: "bytes \<Rightarrow> nat \<Rightarrow> nat \<Rightarrow> bytes list" where
  "read_entries f pos 0 = []"
| "read_entries f pos (Suc n) =
     (let (entry_data, pos') = fh_read f pos 32 in
      if length entry_data \<noteq> 32 then [] else entry_data # read_entries f pos' n)"

text \<open>\<open>nvs_sector_states.get(page_state_raw, f"Unknown (0x{page_state_raw:08x})")\<close>.\<close>

definition page_state_name :: "nat \<Rightarrow> string" where
  "page_state_name page_state_raw =
     (case map_of nvs_sector_states page_state_raw of
        Some name \<Rightarrow> name
      | None \<Rightarrow> ''Unknown (0x'' @ hex08 page_state_raw @ '')'')"

text \<open>The header of the page at \<open>sector_pos\<close>, read in the source's order: the state,
  the sequence number, the version byte, 19 unused bytes and the CRC. The result is the
  page state's name and the position after the header.\<close>

definition read_page_header :: "bytes \<Rightarrow> nat \<Rightarrow> py_error + (string \<times> nat)" where
  "read_page_header f sector_pos =
     (let (b_state, p1) = fh_read f sector_pos 4 in
      ebind (unpack_unsigned 4 b_state) (\<lambda>page_state_raw.
        let page_state = page_state_name page_state_raw;
            (b_seq, p2) = fh_read f p1 4
        in
        ebind (unpack_unsigned 4 b_seq) (\<lambda>seq_no.
          let (b_version, p3) = fh_read f p2 1 in
          ebind (py_index b_version 0) (\<lambda>version_raw.
            let version = unat (xor version_raw 0xff) + 1;
                (unused, p4) = fh_read f p3 19;
                (b_crc, p5) = fh_read f p4 4
            in
            ebind (unpack_unsigned 4 b_crc) (\<lambda>crc_32. Inr (page_state, p5))))))"

text \<open>
  The body of the \<open>try\<close> in \<open>read_nvs_pages\<close> for the page at \<open>sector_pos\<close>: the
  entries the page adds to \<open>result\<close> and the namespace table after it. \<open>Inl\<close> is an
  exception; every statement that can raise comes before \<open>parse_nvs_entries\<close>, which
  raises nothing, so an exception leaves \<open>result\<close> and \<open>namespaces\<close> as they were.
\<close>

definition read_page ::
  "bytes \<Rightarrow> nat \<Rightarrow> namespace_table \<Rightarrow> py_error + (nvs_entry list \<times> namespace_table)" where
  "read_page f sector_pos namespaces =
     ebind (read_page_header f sector_pos) (\<lambda>(page_state, p5).
       if page_state \<notin> set [''ACTIVE'', ''FULL''] then Inr ([], namespaces)
       else
         let (entry_state_bitmap, p6) = fh_read f p5 32 in
         ebind (decode_bitmap entry_state_bitmap) (\<lambda>entry_state_bitmap_decoded.
           let entries = read_entries f p6 126 in
           Inr (parse_nvs_entries entries entry_state_bitmap_decoded namespaces)))"

text \<open>The loop \<open>while sector_pos < file_len\<close>: both the \<open>continue\<close> and the \<open>except\<close>
  handler advance by 4096.\<close>

function pages_loop ::
  "bytes \<Rightarrow> nat \<Rightarrow> namespace_table \<Rightarrow> nvs_entry list \<Rightarrow> nvs_entry list \<times> namespace_table" where
  "pages_loop f sector_pos namespaces result =
     (if sector_pos < length f then
        (case read_page f sector_pos namespaces of
           Inl e \<Rightarrow> pages_loop f (sector_pos + 4096) namespaces result
         | Inr (page_entries, namespaces') \<Rightarrow>
             pages_loop f (sector_pos + 4096) namespaces' (result @ page_entries))
      else (result, namespaces))"
  by pat_completeness auto
termination
  by (relation "measure (\<lambda>(f, sector_pos, namespaces, result). length f - sector_pos)") auto

declare pages_loop.simps [simp del]

definition read_nvs_pages :: "bytes \<Rightarrow> nvs_entry list \<times> namespace_table" where
  "read_nvs_pages f = pages_loop f 0 [(0, ''System'')] []"

section \<open>generate\_nvs\_csv\<close>

text \<open>
  The JSON document \<open>json_data\<close>: the object \<open>namespaces\<close> (its keys are strings, in the
  document's order) and the list \<open>entries\<close>, each entry a dict with the keys the decoder
  writes.
\<close>

record json_data =
  j_namespaces :: "(string \<times> string) list"
  j_entries :: "nvs_entry list"

text \<open>A line of the CSV: the header, \<open>f"{ns_name},namespace,,"\<close>,
  \<open>f"{key},file,binary,{blob_path}"\<close> and \<open>f"{key},data,{encoding},{value_str}"\<close>.\<close>

datatype csv_row =
  Header
| NamespaceRow string
| FileRow string string
| DataRow string string string



definition type_mapping :: "(string \<times> string option) list" where
  "type_mapping =
     [(''U8'', Some ''u8''), (''I8'', Some ''i8''), (''U16'', Some ''u16''),
      (''I16'', Some ''i16''), (''U32'', Some ''u32''), (''I32'', Some ''i32''),
      (''U64'', Some ''u64''), (''I64'', Some ''i64''), (''BLOB_DATA'', Some ''binary''),
      (''BLOB_IDX'', None)]"

text \<open>\<open>type_mapping.get(json_type)\<close>: \<open>None\<close> for a type that is not a key.\<close>

definition map_type_encoding :: "string \<Rightarrow> string option" where
  "map_type_encoding json_type =
     (case map_of type_mapping json_type of Some encoding \<Rightarrow> encoding | None \<Rightarrow> None)"

text \<open>\<open>f"{encoding}"\<close>: Python formats the value \<open>None\<close> as the text \<open>None\<close>.\<close>

definition format_encoding :: "string option \<Rightarrow> string" where
  "format_encoding encoding = (case encoding of None \<Rightarrow> ''None'' | Some s \<Rightarrow> s)"

text \<open>\<open>json.dumps(value)\<close> for a dict value, \<open>str(value)\<close> otherwise.\<close>

definition value_str :: "py_value \<Rightarrow> string" where
  "value_str v =
     (case v of
        DictV sz chunk_count chunk_start \<Rightarrow>
          [CHR ''{'', CHR 0x22] @ ''size'' @ [CHR 0x22] @ '': '' @ str_nat sz @ '', '' @
          [CHR 0x22] @ ''chunk_count'' @ [CHR 0x22] @ '': '' @ str_nat chunk_count @ '', '' @
          [CHR 0x22] @ ''chunk_start'' @ [CHR 0x22] @ '': '' @ str_nat chunk_start @ ''}''
      | IntV k \<Rightarrow> str_int k
      | StrV s \<Rightarrow> s)"

text \<open>\<open>if k not in d: d[k] = []\<close> followed by \<open>d[k].append(v)\<close>, and
  \<open>d.get(k, [])\<close>.\<close>

fun dict_append :: "'k \<Rightarrow> 'v \<Rightarrow> ('k \<times> 'v list) list \<Rightarrow> ('k \<times> 'v list) list" where
  "dict_append k v [] = [(k, [v])]"
| "dict_append k v ((k', vs) # d) =
     (if k' = k then (k', vs @ [v]) # d else (k', vs) # dict_append k v d)"

definition dict_get_list :: "('k \<times> 'v list) list \<Rightarrow> 'k \<Rightarrow> 'v list" where
  "dict_get_list d k = (case map_of d k of Some vs \<Rightarrow> vs | None \<Rightarrow> [])"

text \<open>The first loop of \<open>generate_csv\<close>: the entries grouped by namespace name.\<close>

definition group_by_namespace :: "nvs_entry list \<Rightarrow> (string \<times> nvs_entry list) list" where
  "group_by_namespace es = foldl (\<lambda>d entry. dict_append (e_namespace entry) entry d) [] es"

text \<open>
  \<open>int(s)\<close> for a string: surrounding whitespace is stripped, then an optional sign and
  decimal digits, with single underscores allowed between digits; anything else is
  \<open>ValueError\<close>.
\<close>

definition str_isspace :: "char \<Rightarrow> bool" where
  "str_isspace c =
     (let k = (of_char c :: nat) in
      (9 \<le> k \<and> k \<le> 13) \<or> k = 32 \<or> k = 133 \<or> k = 160)"

definition is_digit :: "char \<Rightarrow> bool" where
  "is_digit c = (let k = (of_char c :: nat) in 48 \<le> k \<and> k \<le> 57)"

fun int_digits :: "string \<Rightarrow> nat \<Rightarrow> nat option" where
  "int_digits [] acc = Some acc"
| "int_digits (c # cs) acc =
     (if is_digit c then int_digits cs (10 * acc + (of_char c - 48))
      else if c = CHR ''_'' \<and> cs \<noteq> [] \<and> is_digit (hd cs) then int_digits cs acc
      else None)"

definition py_int :: "string \<Rightarrow> py_error + int" where
  "py_int s =
     (let t = rev (dropWhile str_isspace (rev (dropWhile str_isspace s)));
          negative = (t \<noteq> [] \<and> hd t = CHR ''-'');
          body = (if t \<noteq> [] \<and> (hd t = CHR ''-'' \<or> hd t = CHR ''+'') then tl t else t)
      in
      if body \<noteq> [] \<and> is_digit (hd body) then
        (case int_digits body 0 of
           Some n \<Rightarrow> Inr (if negative then - int n else int n)
         | None \<Rightarrow> Inl ValueError)
      else Inl ValueError)"

text \<open>A loop that applies a function that can raise to every element, in order.\<close>

fun emap :: "('a \<Rightarrow> py_error + 'b) \<Rightarrow> 'a list \<Rightarrow> py_error + 'b list" where
  "emap g [] = Inr []"
| "emap g (x # xs) = ebind (g x) (\<lambda>y. ebind (emap g xs) (\<lambda>ys. Inr (y # ys)))"

text \<open>\<open>sorted(namespace_map.items(), key=lambda x: int(x[0]))\<close>: the keys are computed
  for every item first, then the items are sorted by them; the sort is stable.\<close>

definition sorted_namespaces :: "(string \<times> string) list \<Rightarrow> py_error + (string \<times> string) list" where
  "sorted_namespaces namespace_map =
     ebind (emap (\<lambda>x. py_int (fst x)) namespace_map) (\<lambda>keys.
       Inr (map snd (sort_key fst (zip keys namespace_map))))"

text \<open>
  \<open>bytes.fromhex(s)\<close>: two hexadecimal digits a byte, ASCII whitespace allowed between
  bytes; a value that is not a string raises \<open>TypeError\<close>.
\<close>

definition ascii_isspace :: "char \<Rightarrow> bool" where
  "ascii_isspace c = (let k = (of_char c :: nat) in (9 \<le> k \<and> k \<le> 13) \<or> k = 32)"

definition hex_value :: "char \<Rightarrow> nat option" where
  "hex_value c =
     (let k = (of_char c :: nat) in
      if 48 \<le> k \<and> k \<le> 57 then Some (k - 48)
      else if 97 \<le> k \<and> k \<le> 102 then Some (k - 87)
      else if 65 \<le> k \<and> k \<le> 70 then Some (k - 55)
      else None)"

fun fromhex :: "string \<Rightarrow> py_error + bytes" where
  "fromhex [] = Inr []"
| "fromhex [c] = (if ascii_isspace c then Inr [] else Inl ValueError)"
| "fromhex (c # d # cs) =
     (if ascii_isspace c then fromhex (d # cs)
      else
        (case (hex_value c, hex_value d) of
           (Some a, Some b) \<Rightarrow> ebind (fromhex cs) (\<lambda>bs. Inr (word_of_nat (16 * a + b) # bs))
         | _ \<Rightarrow> Inl ValueError))"

definition bytes_fromhex :: "py_value \<Rightarrow> py_error + bytes" where
  "bytes_fromhex v = (case v of StrV s \<Rightarrow> fromhex s | _ \<Rightarrow> Inl TypeError)"

text \<open>\<open>os.path.join(output_dir, blob_filename)\<close> for a file name that does not start
  with a slash.\<close>

definition path_join :: "string \<Rightarrow> string \<Rightarrow> string" where
  "path_join output_dir blob_filename =
     (if output_dir = [] \<or> last output_dir = CHR ''/'' then output_dir @ blob_filename
      else output_dir @ ''/'' @ blob_filename)"

text \<open>
  The state \<open>write_blob_file\<close> works on: how many identifiers \<open>uuid.uuid4()\<close> has
  handed out, and the files written so far, in order, each with its path and content. The
  identifiers are a parameter \<open>uuid4_hex\<close>: the \<open>k\<close>-th call returns \<open>uuid4_hex k\<close>.
  Errors of the file system are not modelled, and a run that raises reports the exception
  only.
\<close>

record blob_store =
  uuid_calls :: nat
  written :: "(string \<times> bytes) list"

text \<open>The loop \<open>for blob_value in blob_values: f.write(bytes.fromhex(blob_value))\<close>: what
  the file holds once every value has been written.\<close>

definition blob_contents :: "py_value list \<Rightarrow> py_error + bytes" where
  "blob_contents blob_values =
     ebind (emap bytes_fromhex blob_values) (\<lambda>chunks. Inr (concat chunks))"

definition write_blob_file ::
  "(nat \<Rightarrow> string) \<Rightarrow> py_value list \<Rightarrow> string \<Rightarrow> blob_store \<Rightarrow> py_error + (string \<times> blob_store)" where
  "write_blob_file uuid4_hex blob_values output_dir st =
     (let blob_filename = ''blob_'' @ uuid4_hex (uuid_calls st) @ ''.bin'';
          blob_path = path_join output_dir blob_filename
      in
      ebind (blob_contents blob_values) (\<lambda>contents.
        Inr (blob_path,
             st\<lparr>uuid_calls := Suc (uuid_calls st),
                written := written st @ [(blob_path, contents)]\<rparr>)))"

text \<open>The loop \<open>for entry in entries_by_namespace.get(ns_name, [])\<close>: BLOB\_DATA entries
  are grouped by key as pairs (chunk\_index, value), BLOB\_IDX entries are skipped, the
  others are collected in order.\<close>

fun group_entries ::
  "nvs_entry list \<Rightarrow> (string \<times> (nat \<times> py_value) list) list \<Rightarrow> nvs_entry list
     \<Rightarrow> py_error + ((string \<times> (nat \<times> py_value) list) list \<times> nvs_entry list)" where
  "group_entries [] blob_data_by_key non_blob_entries = Inr (blob_data_by_key, non_blob_entries)"
| "group_entries (entry # rest) blob_data_by_key non_blob_entries =
     (if e_type entry = ''BLOB_DATA'' then
        (case e_value entry of
           None \<Rightarrow> Inl KeyError
         | Some v \<Rightarrow>
             group_entries rest
               (dict_append (e_key entry) (e_chunk_index entry, v) blob_data_by_key)
               non_blob_entries)
      else if e_type entry \<noteq> ''BLOB_IDX'' then
        group_entries rest blob_data_by_key (non_blob_entries @ [entry])
      else group_entries rest blob_data_by_key non_blob_entries)"

text \<open>The loop \<open>for key, blob_entries in blob_data_by_key.items()\<close>: the chunks of a
  key are sorted by chunk index (\<open>list.sort\<close> is stable), written to one file, and
  stand for one file row.\<close>

fun write_blobs ::
  "(nat \<Rightarrow> string) \<Rightarrow> string \<Rightarrow> (string \<times> (nat \<times> py_value) list) list \<Rightarrow> blob_store
     \<Rightarrow> py_error + (csv_row list \<times> blob_store)" where
  "write_blobs uuid4_hex output_dir [] st = Inr ([], st)"
| "write_blobs uuid4_hex output_dir ((k, blob_entries) # rest) st =
     (let blob_values = map snd (sort_key fst blob_entries) in
      ebind (write_blob_file uuid4_hex blob_values output_dir st) (\<lambda>(blob_path, st').
      ebind (write_blobs uuid4_hex output_dir rest st') (\<lambda>(rows, st'').
        Inr (FileRow k blob_path # rows, st''))))"

text \<open>The loop \<open>for entry in non_blob_entries\<close>.\<close>

fun data_rows :: "nvs_entry list \<Rightarrow> py_error + csv_row list" where
  "data_rows [] = Inr []"
| "data_rows (entry # rest) =
     (case e_value entry of
        None \<Rightarrow> Inl KeyError
      | Some v \<Rightarrow>
          ebind (data_rows rest) (\<lambda>rows.
            Inr (DataRow (e_key entry) (format_encoding (map_type_encoding (e_type entry)))
                   (value_str v) # rows)))"

text \<open>The body of the loop over the sorted namespaces, for the namespace \<open>ns_name\<close>
  and its entries.\<close>

definition namespace_rows ::
  "(nat \<Rightarrow> string) \<Rightarrow> string \<Rightarrow> string \<Rightarrow> nvs_entry list \<Rightarrow> blob_store
     \<Rightarrow> py_error + (csv_row list \<times> blob_store)" where
  "namespace_rows uuid4_hex output_dir ns_name ns_entries st =
     ebind (group_entries ns_entries [] []) (\<lambda>(blob_data_by_key, non_blob_entries).
     ebind (write_blobs uuid4_hex output_dir blob_data_by_key st) (\<lambda>(file_rows, st').
     ebind (data_rows non_blob_entries) (\<lambda>rows.
       Inr (NamespaceRow ns_name # file_rows @ rows, st'))))"

fun namespaces_loop ::
  "(nat \<Rightarrow> string) \<Rightarrow> string \<Rightarrow> (string \<times> nvs_entry list) list \<Rightarrow> (string \<times> string) list
     \<Rightarrow> blob_store \<Rightarrow> py_error + (csv_row list \<times> blob_store)" where
  "namespaces_loop uuid4_hex output_dir entries_by_namespace [] st = Inr ([], st)"
| "namespaces_loop uuid4_hex output_dir entries_by_namespace ((ns_id, ns_name) # rest) st =
     ebind (namespace_rows uuid4_hex output_dir ns_name
              (dict_get_list entries_by_namespace ns_name) st) (\<lambda>(rows, st').
     ebind (namespaces_loop uuid4_hex output_dir entries_by_namespace rest st') (\<lambda>(rows', st'').
       Inr (rows @ rows', st'')))"

text \<open>\<open>generate_csv\<close>: the lines of the CSV and the blob files written, or the
  exception that ends the run.\<close>

definition generate_csv ::
  "(nat \<Rightarrow> string) \<Rightarrow> json_data \<Rightarrow> string \<Rightarrow> blob_store \<Rightarrow> py_error + (csv_row list \<times> blob_store)" where
  "generate_csv uuid4_hex jd blobs_output_dir st =
     (let entries_by_namespace = group_by_namespace (j_entries jd) in
      ebind (sorted_namespaces (j_namespaces jd)) (\<lambda>items.
      ebind (namespaces_loop uuid4_hex blobs_output_dir entries_by_namespace items st)
        (\<lambda>(rows, st'). Inr (Header # rows, st'))))"


text \<open>The rows written by \<open>csv_lines.append(f"{ns_name},namespace,,")\<close>.\<close>

definition is_namespace_row :: "csv_row \<Rightarrow> bool" where
  "is_namespace_row r = (case r of NamespaceRow ns_name \<Rightarrow> True | _ \<Rightarrow> False)"

text \<open>The pairs (chunk\_index, value) of the BLOB\_DATA entries with key \<open>k\<close> among the
  entries of a namespace, in the order of the record: the list
  \<open>blob_data_by_key[k]\<close> before it is sorted.\<close>

definition blob_group :: "string \<Rightarrow> nvs_entry list \<Rightarrow> (nat \<times> py_value) list" where
  "blob_group k ns_entries =
     map (\<lambda>entry. (e_chunk_index entry, the (e_value entry)))
       (filter (\<lambda>entry. e_type entry = ''BLOB_DATA'' \<and> e_key entry = k) ns_entries)"

text \<open>The names \<open>nvs_types\<close> gives the type codes 0x21, 0x41 and 0x42.\<close>

definition variable_type :: "nat \<Rightarrow> string" where
  "variable_type c = (if c = 0x21 then ''STR'' else if c = 0x41 then ''BLOB'' else ''BLOB_DATA'')"

section \<open>Example slots\<close>

text \<open>Slots of 32 bytes each: namespace id, type code, span, chunk index, four reserved
  bytes, the key padded with NUL to 16 bytes, and the 8 bytes of the value region.\<close>

text \<open>A STR entry in namespace 1, span 2, key \<open>greeting\<close>, declared size 2.\<close>

definition ex_slot_str :: bytes where
  "ex_slot_str =
     [0x01, 0x21, 0x02, 0xFF, 0x00, 0x00, 0x00, 0x00,
      0x67, 0x72, 0x65, 0x65, 0x74, 0x69, 0x6E, 0x67,
      0x00, 0x00, 0x00, 0x00, 0x00, 0x00, 0x00, 0x00,
      0x02, 0x00, 0xFF, 0xFF, 0x00, 0x00, 0x00, 0x00]"

text \<open>A continuation slot: the bytes of \<open>hi!!\<close>, then 0xFF.\<close>

definition ex_slot_payload :: bytes where
  "ex_slot_payload =
     [0x68, 0x69, 0x21, 0x21, 0xFF, 0xFF, 0xFF, 0xFF,
      0xFF, 0xFF, 0xFF, 0xFF, 0xFF, 0xFF, 0xFF, 0xFF,
      0xFF, 0xFF, 0xFF, 0xFF, 0xFF, 0xFF, 0xFF, 0xFF,
      0xFF, 0xFF, 0xFF, 0xFF, 0xFF, 0xFF, 0xFF, 0xFF]"

text \<open>A STR entry, span 2, declared size 5000 (0x1388).\<close>

definition ex_slot_oversized :: bytes where
  "ex_slot_oversized =
     [0x01, 0x21, 0x02, 0xFF, 0x00, 0x00, 0x00, 0x00,
      0x62, 0x69, 0x67, 0x00, 0x00, 0x00, 0x00, 0x00,
      0x00, 0x00, 0x00, 0x00, 0x00, 0x00, 0x00, 0x00,
      0x88, 0x13, 0xFF, 0xFF, 0x00, 0x00, 0x00, 0x00]"

text \<open>A U8 entry in namespace 1, span 1, key \<open>x\<close>, value 7.\<close>

definition ex_slot_u8 :: bytes where
  "ex_slot_u8 =
     [0x01, 0x01, 0x01, 0xFF, 0x00, 0x00, 0x00, 0x00,
      0x78, 0x00, 0x00, 0x00, 0x00, 0x00, 0x00, 0x00,
      0x00, 0x00, 0x00, 0x00, 0x00, 0x00, 0x00, 0x00,
      0x07, 0xFF, 0xFF, 0xFF, 0xFF, 0xFF, 0xFF, 0xFF]"

text \<open>A BLOB entry, span 3, declared size 4033 (0x0FC1).\<close>

definition ex_slot_blob_oversized :: bytes where
  "ex_slot_blob_oversized =
     [0x02, 0x41, 0x03, 0xFF, 0x00, 0x00, 0x00, 0x00,
      0x62, 0x6C, 0x6F, 0x62, 0x00, 0x00, 0x00, 0x00,
      0x00, 0x00, 0x00, 0x00, 0x00, 0x00, 0x00, 0x00,
      0xC1, 0x0F, 0xFF, 0xFF, 0x00, 0x00, 0x00, 0x00]"

text \<open>A U32 entry whose span byte is 0.\<close>

definition ex_slot_span0 :: bytes where
  "ex_slot_span0 =
     [0x01, 0x04, 0x00, 0xFF, 0x00, 0x00, 0x00, 0x00,
      0x6E, 0x00, 0x00, 0x00, 0x00, 0x00, 0x00, 0x00,
      0x00, 0x00, 0x00, 0x00, 0x00, 0x00, 0x00, 0x00,
      0x01, 0x00, 0x00, 0x00, 0xFF, 0xFF, 0xFF, 0xFF]"

text \<open>A namespace definition: a U8 entry in namespace 0, key \<open>wifi\<close>, value 5.\<close>

definition ex_slot_ns_def :: bytes where
  "ex_slot_ns_def =
     [0x00, 0x01, 0x01, 0xFF, 0x00, 0x00, 0x00, 0x00,
      0x77, 0x69, 0x66, 0x69, 0x00, 0x00, 0x00, 0x00,
      0x00, 0x00, 0x00, 0x00, 0x00, 0x00, 0x00, 0x00,
      0x05, 0xFF, 0xFF, 0xFF, 0xFF, 0xFF, 0xFF, 0xFF]"

text \<open>A U32 entry in namespace 5, key \<open>ssid\_len\<close>, value 0x12345678.\<close>

definition ex_slot_in_ns5 :: bytes where
  "ex_slot_in_ns5 =
     [0x05, 0x04, 0x01, 0xFF, 0x00, 0x00, 0x00, 0x00,
      0x73, 0x73, 0x69, 0x64, 0x5F, 0x6C, 0x65, 0x6E,
      0x00, 0x00, 0x00, 0x00, 0x00, 0x00, 0x00, 0x00,
      0x78, 0x56, 0x34, 0x12, 0xFF, 0xFF, 0xFF, 0xFF]"

text \<open>A U32 entry in namespace 0, key \<open>boot\<close>, value 1.\<close>

definition ex_slot_in_ns0 :: bytes where
  "ex_slot_in_ns0 =
     [0x00, 0x04, 0x01, 0xFF, 0x00, 0x00, 0x00, 0x00,
      0x62, 0x6F, 0x6F, 0x74, 0x00, 0x00, 0x00, 0x00,
      0x00, 0x00, 0x00, 0x00, 0x00, 0x00, 0x00, 0x00,
      0x01, 0x00, 0x00, 0x00, 0xFF, 0xFF, 0xFF, 0xFF]"

text \<open>A BLOB\_IDX entry in namespace 1, key \<open>cert\<close>: size 4096, 2 chunks from chunk 0.\<close>

definition ex_slot_blob_idx :: bytes where
  "ex_slot_blob_idx =
     [0x01, 0x48, 0x01, 0xFF, 0x00, 0x00, 0x00, 0x00,
      0x63, 0x65, 0x72, 0x74, 0x00, 0x00, 0x00, 0x00,
      0x00, 0x00, 0x00, 0x00, 0x00, 0x00, 0x00, 0x00,
      0x00, 0x10, 0x00, 0x00, 0xFF, 0x02, 0x00, 0xFF]"

text \<open>A slot of type ANY (0xFF), span 1.\<close>

definition ex_slot_any :: bytes where
  "ex_slot_any =
     [0x01, 0xFF, 0x01, 0xFF, 0x00, 0x00, 0x00, 0x00,
      0x61, 0x6E, 0x79, 0x00, 0x00, 0x00, 0x00, 0x00,
      0x00, 0x00, 0x00, 0x00, 0x00, 0x00, 0x00, 0x00,
      0xFF, 0xFF, 0xFF, 0xFF, 0xFF, 0xFF, 0xFF, 0xFF]"

text \<open>The same STR entry with declared size 6: its payload then holds two bytes above 0x7F.\<close>

definition ex_slot_str6 :: bytes where
  "ex_slot_str6 =
     [0x01, 0x21, 0x02, 0xFF, 0x00, 0x00, 0x00, 0x00,
      0x67, 0x72, 0x65, 0x65, 0x74, 0x69, 0x6E, 0x67,
      0x00, 0x00, 0x00, 0x00, 0x00, 0x00, 0x00, 0x00,
      0x06, 0x00, 0xFF, 0xFF, 0x00, 0x00, 0x00, 0x00]"

text \<open>A BLOB\_DATA entry in namespace 1, span 2, chunk index 0, key \<open>cert\<close>, declared size 6.\<close>

definition ex_slot_blob_data :: bytes where
  "ex_slot_blob_data =
     [0x01, 0x42, 0x02, 0x00, 0x00, 0x00, 0x00, 0x00,
      0x63, 0x65, 0x72, 0x74, 0x00, 0x00, 0x00, 0x00,
      0x00, 0x00, 0x00, 0x00, 0x00, 0x00, 0x00, 0x00,
      0x06, 0x00, 0xFF, 0xFF, 0x00, 0x00, 0x00, 0x00]"

text \<open>The key \<open>lambda x: int(x[0])\<close> of the sort of the namespace items; the value 0
  stands in where \<open>int\<close> raises, which ends the run before any row is written.\<close>

definition namespace_id :: "string \<times> string \<Rightarrow> int" where
  "namespace_id x = (case py_int (fst x) of Inr k \<Rightarrow> k | Inl err \<Rightarrow> 0)"

section \<open>Example records\<close>

text \<open>A record whose namespace table is not in the order of the ids, with the two chunks
  of a blob in the order 1, 0, a BLOB\_IDX entry, a STR entry, a U8 entry, and a BLOB
  entry whose namespace name \<open>NS_7\<close> no id of the table has.\<close>

definition ex_record :: json_data where
  "ex_record =
     \<lparr>j_namespaces = [(''10'', ''wifi''), (''0'', ''System''), (''2'', ''app'')],
      j_entries =
        [\<lparr>e_key = ''cert'', e_type = ''BLOB_DATA'', e_namespace = ''app'', e_span = 2,
          e_chunk_index = 1, e_value = Some (StrV ''BB''), e_size = Some 1\<rparr>,
         \<lparr>e_key = ''ssid'', e_type = ''STR'', e_namespace = ''wifi'', e_span = 2,
          e_chunk_index = 255, e_value = Some (StrV ''home''), e_size = Some 4\<rparr>,
         \<lparr>e_key = ''cert'', e_type = ''BLOB_DATA'', e_namespace = ''app'', e_span = 2,
          e_chunk_index = 0, e_value = Some (StrV ''AA''), e_size = Some 1\<rparr>,
         \<lparr>e_key = ''cert'', e_type = ''BLOB_IDX'', e_namespace = ''app'', e_span = 1,
          e_chunk_index = 255, e_value = Some (DictV 2 2 0), e_size = None\<rparr>,
         \<lparr>e_key = ''wifi'', e_type = ''U8'', e_namespace = ''System'', e_span = 1,
          e_chunk_index = 255, e_value = Some (IntV 10), e_size = None\<rparr>,
         \<lparr>e_key = ''raw'', e_type = ''BLOB'', e_namespace = ''NS_7'', e_span = 2,
          e_chunk_index = 255, e_value = Some (StrV ''00ff''), e_size = Some 2\<rparr>]\<rparr>"

text \<open>The rows and the blob file \<open>generate_csv\<close> produces for \<open>ex_record\<close>.\<close>

definition ex_rows :: "csv_row list" where
  "ex_rows =
     [Header,
      NamespaceRow ''System'', DataRow ''wifi'' ''u8'' ''10'',
      NamespaceRow ''app'', FileRow ''cert'' ''blobs/blob_0.bin'',
      NamespaceRow ''wifi'', DataRow ''ssid'' ''None'' ''home'']"

text \<open>The store before any blob file is written.\<close>

definition empty_store :: blob_store where
  "empty_store = \<lparr>uuid_calls = 0, written = []\<rparr>"

text \<open>The record \<open>ex_record\<close> with the namespace table and the entries in another
  order.\<close>

definition ex_record_reordered :: json_data where
  "ex_record_reordered =
     \<lparr>j_namespaces = [(''2'', ''app''), (''10'', ''wifi''), (''0'', ''System'')],
      j_entries = rev (j_entries ex_record)\<rparr>"


section \<open>Properties of the slot parser\<close>

lemma py_index_Inr: "k < length xs \<Longrightarrow> py_index xs k = Inr (xs ! k)"
  by (simp add: py_index_def)

lemma int_of_digit_2: "int_of_digit CHR ''2'' = Inr 2"
  by (simp add: int_of_digit_def)

lemma parse_slot_written:
  assumes "py_index entry_state_bitmap i = Inr CHR ''2''"
    and "py_index entries i = Inr entry"
    and "4 \<le> length entry"
  shows "parse_slot entries entry_state_bitmap namespaces i =
     (case map_of nvs_types (unat (entry ! 1)) of
        None \<Rightarrow> Inr (None, namespaces, i + 1)
      | Some type_name \<Rightarrow>
          if unat (entry ! 2) < 1 \<or> unat (entry ! 2) > 126 - i then Inr (None, namespaces, i + 1)
          else
            decode_value entries namespaces i
              \<lparr>e_key = decode_ascii_ignore (rstrip_nul (py_slice entry 8 24)), e_type = type_name,
               e_namespace = namespace_name namespaces (unat (entry ! 0)),
               e_span = unat (entry ! 2), e_chunk_index = unat (entry ! 3),
               e_value = None, e_size = None\<rparr>
              (unat (entry ! 0)) (drop 24 entry))"
proof -
  from assms(3) have "py_index entry 0 = Inr (entry ! 0)" "py_index entry 1 = Inr (entry ! 1)"
    "py_index entry 2 = Inr (entry ! 2)" "py_index entry 3 = Inr (entry ! 3)"
    by (auto simp: py_index_def)
  with assms(1,2) show ?thesis
    by (simp add: parse_slot_def ebind_simps int_of_digit_2) (simp add: Let_def)
qed

lemma int_of_digit_eq_2:
  assumes "int_of_digit c = Inr 2"
  shows "c = CHR ''2''"
proof -
  from assms have "of_char c = (50::nat)"
    by (auto simp: int_of_digit_def Let_def split: if_splits)
  then have "char_of (of_char c :: nat) = char_of (50::nat)"
    by simp
  then show ?thesis
    by (simp add: char_of_eq_iff)
qed

lemma parse_step_not_written:
  assumes "py_index entry_state_bitmap i = Inr c" and "c \<noteq> CHR ''2''"
  shows "parse_step entries entry_state_bitmap namespaces i = (None, namespaces, i + 1)"
proof (cases "int_of_digit c")
  case (Inl e)
  with assms show ?thesis by (simp add: parse_step_def parse_slot_def ebind_simps)
next
  case (Inr state)
  with assms(2) have "state \<noteq> 2"
    using int_of_digit_eq_2 by blast
  with Inr assms show ?thesis by (simp add: parse_step_def parse_slot_def ebind_simps)
qed

lemma unpack_unsigned_Inr: "unpack_unsigned n bs = Inr v \<Longrightarrow> v = le_nat bs"
  by (simp add: unpack_unsigned_def split: if_splits)

lemma decode_value_entry:
  assumes "decode_value entries namespaces i entry_data entry_ns data = Inr (Some e, namespaces', i')"
  shows "e_type e = e_type entry_data \<and> e_namespace e = e_namespace entry_data
       \<and> e_key e = e_key entry_data \<and> e_span e = e_span entry_data
       \<and> e_chunk_index e = e_chunk_index entry_data
       \<and> e_type entry_data \<noteq> ''ANY'' \<and> i' = i + e_span entry_data"
  using assms unfolding decode_value_def Let_def
  apply (simp only: split: if_split_asm)
  apply (simp_all add: ebind_eq_Inr)
  apply auto
  apply (simp_all split: if_split_asm)
  apply (simp_all add: ebind_eq_Inr)
  apply auto
  done

lemma decode_value_table:
  assumes "decode_value entries namespaces i entry_data entry_ns data = Inr (appended, namespaces', i')"
  shows "namespaces' =
     (if e_type entry_data = ''U8'' \<and> entry_ns = 0
      then AList.update (le_nat (py_slice data 0 1)) (e_key entry_data) namespaces
      else namespaces)"
  using assms unfolding decode_value_def Let_def
  apply (simp only: split: if_split_asm)
  apply (simp_all add: ebind_eq_Inr)
  apply (auto dest: unpack_unsigned_Inr)
  apply (simp_all split: if_split_asm)
  apply (simp_all add: ebind_eq_Inr)
  apply auto
  done

lemma decode_value_variable:
  assumes "e_type entry_data \<in> {''STR'', ''BLOB'', ''BLOB_DATA''}"
  shows "decode_value entries namespaces i entry_data entry_ns data =
     ebind (unpack_unsigned 2 (py_slice data 0 2)) (\<lambda>sz.
       if sz > 4032 then Inr (None, namespaces, i + e_span entry_data)
       else
         ebind (data_chunks_loop entries i [1..<e_span entry_data] [drop 8 data]) (\<lambda>data_chunks.
           Inr (Some (entry_data
                  \<lparr>e_value := Some (StrV (if e_type entry_data = ''STR''
                                           then decode_ascii_ignore (take sz (concat data_chunks))
                                           else hex_bytes (take sz (concat data_chunks)))),
                   e_size := Some sz\<rparr>),
                namespaces, i + e_span entry_data)))"
  using assms by (auto simp: decode_value_def) (simp_all add: Let_def cong: if_cong)

lemma decode_value_blob_idx:
  assumes "e_type entry_data = ''BLOB_IDX''"
  shows "decode_value entries namespaces i entry_data entry_ns data =
     ebind (unpack_unsigned 4 (py_slice data 0 4)) (\<lambda>sz.
     ebind (unpack_unsigned 1 (py_slice data 5 6)) (\<lambda>chunk_count.
     ebind (unpack_unsigned 1 (py_slice data 6 7)) (\<lambda>chunk_start.
       Inr (Some (entry_data\<lparr>e_value := Some (DictV sz chunk_count chunk_start)\<rparr>),
            namespaces, i + e_span entry_data))))"
  using assms by (simp add: decode_value_def)

lemma data_chunks_loop_all:
  assumes "\<forall>x \<in> set xs. i + x < 126 \<and> i + x < length entries"
  shows "data_chunks_loop entries i xs data_chunks =
           Inr (data_chunks @ map (\<lambda>x. entries ! (i + x)) xs)"
  using assms
  by (induction xs arbitrary: data_chunks) (simp_all add: py_index_def ebind_simps)

lemma parse_step_Inr:
  "parse_slot entries entry_state_bitmap namespaces i = Inr r \<Longrightarrow>
   parse_step entries entry_state_bitmap namespaces i = r"
  by (simp add: parse_step_def)

lemma parse_loop_step:
  assumes "i < 126"
    and "parse_step entries entry_state_bitmap namespaces i = (appended, namespaces', i')"
  shows "parse_loop entries entry_state_bitmap i namespaces result =
         parse_loop entries entry_state_bitmap i' namespaces'
           (case appended of None \<Rightarrow> result | Some entry_data \<Rightarrow> result @ [entry_data])"
  using assms by (subst parse_loop.simps) simp

lemma size_field:
  assumes "26 \<le> length entry"
  shows "unpack_unsigned 2 (py_slice (drop 24 entry) 0 2) = Inr (le_nat (py_slice entry 24 26))"
  using assms by (simp add: unpack_unsigned_def py_slice_def)

lemma variable_type_name:
  assumes "c \<in> {0x21, 0x41, 0x42}"
  shows "map_of nvs_types c = Some (variable_type c)"
    and "variable_type c \<in> {''STR'', ''BLOB'', ''BLOB_DATA''}"
    and "variable_type c = ''STR'' \<longleftrightarrow> c = 0x21"
  using assms by (auto simp: nvs_types_def variable_type_def)

lemma parse_slot_decodes:
  assumes "py_index entry_state_bitmap i = Inr CHR ''2''"
    and "py_index entries i = Inr entry"
    and "4 \<le> length entry"
    and "map_of nvs_types (unat (entry ! 1)) = Some type_name"
    and "1 \<le> unat (entry ! 2)" and "unat (entry ! 2) \<le> 126 - i"
  shows "parse_slot entries entry_state_bitmap namespaces i =
     decode_value entries namespaces i
       \<lparr>e_key = decode_ascii_ignore (rstrip_nul (py_slice entry 8 24)), e_type = type_name,
        e_namespace = namespace_name namespaces (unat (entry ! 0)),
        e_span = unat (entry ! 2), e_chunk_index = unat (entry ! 3),
        e_value = None, e_size = None\<rparr>
       (unat (entry ! 0)) (drop 24 entry)"
  using assms(4-6) by (simp add: parse_slot_written [OF assms(1-3)])

lemma parse_slot_oversized:
  assumes "py_index entry_state_bitmap i = Inr CHR ''2''"
    and "py_index entries i = Inr entry"
    and "26 \<le> length entry"
    and "unat (entry ! 1) \<in> {0x21, 0x41, 0x42}"
    and "1 \<le> unat (entry ! 2)" and "unat (entry ! 2) \<le> 126 - i"
    and "le_nat (py_slice entry 24 26) > 4032"
  shows "parse_slot entries entry_state_bitmap namespaces i
           = Inr (None, namespaces, i + unat (entry ! 2))"
proof -
  note t = variable_type_name [OF assms(4)]
  from assms(3) have len: "4 \<le> length entry" by simp
  show ?thesis
    using assms(7) t(2)
    by (simp add: parse_slot_decodes [OF assms(1,2) len t(1) assms(5,6)] decode_value_variable
          size_field [OF assms(3)] ebind_simps)
qed


lemma parse_slot_variable:
  assumes "py_index entry_state_bitmap i = Inr CHR ''2''"
    and "py_index entries i = Inr entry"
    and "26 \<le> length entry"
    and "unat (entry ! 1) \<in> {0x21, 0x41, 0x42}"
    and "1 \<le> unat (entry ! 2)" and "unat (entry ! 2) \<le> 126 - i"
    and "i + unat (entry ! 2) \<le> length entries"
    and "le_nat (py_slice entry 24 26) \<le> 4032"
  shows "parse_slot entries entry_state_bitmap namespaces i =
     Inr (Some \<lparr>e_key = decode_ascii_ignore (rstrip_nul (py_slice entry 8 24)),
                e_type = (if unat (entry ! 1) = 0x21 then ''STR''
                          else if unat (entry ! 1) = 0x41 then ''BLOB'' else ''BLOB_DATA''),
                e_namespace = namespace_name namespaces (unat (entry ! 0)),
                e_span = unat (entry ! 2), e_chunk_index = unat (entry ! 3),
                e_value = Some (StrV
                  ((if unat (entry ! 1) = 0x21 then decode_ascii_ignore else hex_bytes)
                     (take (le_nat (py_slice entry 24 26))
                        (drop 32 entry
                         @ concat (map (\<lambda>x. entries ! (i + x)) [1..<unat (entry ! 2)]))))),
                e_size = Some (le_nat (py_slice entry 24 26))\<rparr>,
          namespaces, i + unat (entry ! 2))"
proof -
  note t = variable_type_name [OF assms(4)]
  from assms(3) have len: "4 \<le> length entry" by simp
  have chunks: "\<forall>x \<in> set [Suc 0..<unat (entry ! 2)]. i + x < 126 \<and> i + x < length entries"
    using assms(6,7) by auto
  have "parse_slot entries entry_state_bitmap namespaces i =
     Inr (Some \<lparr>e_key = decode_ascii_ignore (rstrip_nul (py_slice entry 8 24)),
                e_type = variable_type (unat (entry ! 1)),
                e_namespace = namespace_name namespaces (unat (entry ! 0)),
                e_span = unat (entry ! 2), e_chunk_index = unat (entry ! 3),
                e_value = Some (StrV
                  (if variable_type (unat (entry ! 1)) = ''STR''
                   then decode_ascii_ignore
                     (take (le_nat (py_slice entry 24 26))
                        (drop 32 entry
                         @ concat (map (\<lambda>x. entries ! (i + x)) [1..<unat (entry ! 2)])))
                   else hex_bytes
                     (take (le_nat (py_slice entry 24 26))
                        (drop 32 entry
                         @ concat (map (\<lambda>x. entries ! (i + x)) [1..<unat (entry ! 2)]))))),
                e_size = Some (le_nat (py_slice entry 24 26))\<rparr>,
          namespaces, i + unat (entry ! 2))"
    using assms(8) t(2)
    by (simp add: parse_slot_decodes [OF assms(1,2) len t(1) assms(5,6)] decode_value_variable
          size_field [OF assms(3)] ebind_simps data_chunks_loop_all [OF chunks])
  then show ?thesis
    using assms(4) by (auto simp: variable_type_def)
qed



lemma parse_slot_cases:
  assumes "parse_slot entries entry_state_bitmap namespaces i = Inr r"
  obtains (skip) "r = (None, namespaces, i + 1)"
  | (decode) entry type_name where
      "py_index entry_state_bitmap i = Inr CHR ''2''"
      "py_index entries i = Inr entry" "4 \<le> length entry"
      "map_of nvs_types (unat (entry ! 1)) = Some type_name"
      "1 \<le> unat (entry ! 2)" "unat (entry ! 2) \<le> 126 - i"
      "decode_value entries namespaces i
         \<lparr>e_key = decode_ascii_ignore (rstrip_nul (py_slice entry 8 24)), e_type = type_name,
          e_namespace = namespace_name namespaces (unat (entry ! 0)),
          e_span = unat (entry ! 2), e_chunk_index = unat (entry ! 3),
          e_value = None, e_size = None\<rparr>
         (unat (entry ! 0)) (drop 24 entry) = Inr r"
proof -
  from assms obtain c state where c: "py_index entry_state_bitmap i = Inr c"
    and st: "int_of_digit c = Inr state"
    unfolding parse_slot_def by (auto simp: ebind_eq_Inr)
  show ?thesis
  proof (cases "state = 2")
    case False
    with assms c st have "r = (None, namespaces, i + 1)"
      unfolding parse_slot_def by (simp add: ebind_simps)
    then show ?thesis by (rule skip)
  next
    case True
    with st have c2: "c = CHR ''2''" by (simp add: int_of_digit_eq_2)
    from assms c st True obtain entry b0 b1 b2 b3 where
      e: "py_index entries i = Inr entry" "py_index entry 0 = Inr b0" "py_index entry 1 = Inr b1"
         "py_index entry 2 = Inr b2" "py_index entry 3 = Inr b3"
      unfolding parse_slot_def by (auto simp: ebind_eq_Inr ebind_simps)
    from e(5) have len: "4 \<le> length entry"
      by (simp add: py_index_def split: if_splits)
    note w = parse_slot_written [OF c [unfolded c2] e(1) len, of namespaces]
    show ?thesis
    proof (cases "map_of nvs_types (unat (entry ! 1))")
      case None
      with assms w have "r = (None, namespaces, i + 1)" by simp
      then show ?thesis by (rule skip)
    next
      case (Some type_name)
      show ?thesis
      proof (cases "unat (entry ! 2) < 1 \<or> unat (entry ! 2) > 126 - i")
        case True
        with assms w Some have "r = (None, namespaces, i + 1)" by simp
        then show ?thesis by (rule skip)
      next
        case False
        with assms w Some have "decode_value entries namespaces i
         \<lparr>e_key = decode_ascii_ignore (rstrip_nul (py_slice entry 8 24)), e_type = type_name,
          e_namespace = namespace_name namespaces (unat (entry ! 0)),
          e_span = unat (entry ! 2), e_chunk_index = unat (entry ! 3),
          e_value = None, e_size = None\<rparr>
         (unat (entry ! 0)) (drop 24 entry) = Inr r"
          by simp
        with False show ?thesis
          using c [unfolded c2] e(1) len Some by (intro decode) simp_all
      qed
    qed
  qed
qed

lemma parse_step_cases:
  assumes "parse_step entries entry_state_bitmap namespaces i = (appended, namespaces', i')"
  obtains (skip) "appended = None" "namespaces' = namespaces" "i' = i + 1"
  | (decode) entry type_name where
      "py_index entry_state_bitmap i = Inr CHR ''2''"
      "py_index entries i = Inr entry" "4 \<le> length entry"
      "map_of nvs_types (unat (entry ! 1)) = Some type_name"
      "1 \<le> unat (entry ! 2)" "unat (entry ! 2) \<le> 126 - i"
      "decode_value entries namespaces i
         \<lparr>e_key = decode_ascii_ignore (rstrip_nul (py_slice entry 8 24)), e_type = type_name,
          e_namespace = namespace_name namespaces (unat (entry ! 0)),
          e_span = unat (entry ! 2), e_chunk_index = unat (entry ! 3),
          e_value = None, e_size = None\<rparr>
         (unat (entry ! 0)) (drop 24 entry) = Inr (appended, namespaces', i')"
proof (cases "parse_slot entries entry_state_bitmap namespaces i")
  case (Inl e)
  with assms show ?thesis by (intro skip) (simp_all add: parse_step_def)
next
  case (Inr r)
  with assms have r: "r = (appended, namespaces', i')" by (simp add: parse_step_def)
  from Inr show ?thesis
  proof (cases rule: parse_slot_cases)
    case skip
    with r show ?thesis by (intro that(1)) simp_all
  next
    case (decode entry type_name)
    with r show ?thesis by (intro that(2)) simp_all
  qed
qed

lemma parse_iterations_bound:
  "parse_iterations entries entry_state_bitmap i namespaces \<le> 126 - i"
proof (induction entries entry_state_bitmap i namespaces rule: parse_iterations.induct)
  case (1 entries entry_state_bitmap i namespaces)
  show ?case
  proof (cases "i < 126")
    case False
    then show ?thesis by (subst parse_iterations.simps) simp
  next
    case True
    obtain appended namespaces' i' where
      s: "parse_step entries entry_state_bitmap namespaces i = (appended, namespaces', i')"
      by (cases "parse_step entries entry_state_bitmap namespaces i") auto
    then have "i < i'" by (rule parse_step_advances)
    moreover have "parse_iterations entries entry_state_bitmap i' namespaces' \<le> 126 - i'"
      using "1.IH" [OF True s [symmetric]] by simp
    ultimately show ?thesis
      using True s by (subst parse_iterations.simps) simp
  qed
qed

lemma parse_loop_prefix:
  "prefix result (fst (parse_loop entries entry_state_bitmap i namespaces result))"
proof (induction entries entry_state_bitmap i namespaces result rule: parse_loop.induct)
  case (1 entries entry_state_bitmap i namespaces result)
  show ?case
  proof (cases "i < 126")
    case False
    then show ?thesis by (subst parse_loop.simps) simp
  next
    case True
    obtain appended namespaces' i' where
      s: "parse_step entries entry_state_bitmap namespaces i = (appended, namespaces', i')"
      by (cases "parse_step entries entry_state_bitmap namespaces i") auto
    let ?result' = "case appended of None \<Rightarrow> result | Some entry_data \<Rightarrow> result @ [entry_data]"
    have "prefix ?result' (fst (parse_loop entries entry_state_bitmap i' namespaces' ?result'))"
      using "1.IH" [OF True s [symmetric]] by simp
    moreover have "prefix result ?result'"
      by (cases appended) simp_all
    ultimately have "prefix result (fst (parse_loop entries entry_state_bitmap i' namespaces' ?result'))"
      by (rule prefix_order.trans [rotated])
    then show ?thesis
      by (simp add: parse_loop_step [OF True s])
  qed
qed

lemma pages_loop_prefix:
  "prefix result (fst (pages_loop f sector_pos namespaces result))"
proof (induction f sector_pos namespaces result rule: pages_loop.induct)
  case (1 f sector_pos namespaces result)
  show ?case
  proof (cases "sector_pos < length f")
    case False
    then show ?thesis by (subst pages_loop.simps) simp
  next
    case True
    show ?thesis
    proof (cases "read_page f sector_pos namespaces")
      case (Inl e)
      with True "1.IH"(1) show ?thesis
        by (subst pages_loop.simps) simp
    next
      case (Inr r)
      obtain page_entries namespaces' where r: "r = (page_entries, namespaces')"
        by (cases r) auto
      have "prefix (result @ page_entries)
              (fst (pages_loop f (sector_pos + 4096) namespaces' (result @ page_entries)))"
        using "1.IH"(2) [OF True Inr r [symmetric]] .
      then have "prefix result
              (fst (pages_loop f (sector_pos + 4096) namespaces' (result @ page_entries)))"
        using append_prefixD by blast
      with True Inr r show ?thesis
        by (subst pages_loop.simps) simp
    qed
  qed
qed

lemma page_state_name_active:
  "page_state_name raw \<in> {''ACTIVE'', ''FULL''} \<longleftrightarrow> raw \<in> {0xFFFFFFFE, 0xFFFFFFFC}"
  by (auto simp: page_state_name_def nvs_sector_states_def)

lemma read_page_header_state:
  assumes "read_page_header f sector_pos = Inr (page_state, p)"
  shows "page_state = page_state_name (le_nat (py_slice f sector_pos (sector_pos + 4)))"
proof -
  obtain b_state p1 where fh: "fh_read f sector_pos 4 = (b_state, p1)"
    by (cases "fh_read f sector_pos 4") auto
  then have b: "b_state = py_slice f sector_pos (sector_pos + 4)"
    by (auto simp: fh_read_def Let_def py_slice_def)
  from assms fh obtain page_state_raw where
    raw: "unpack_unsigned 4 b_state = Inr page_state_raw"
    and rest: "(let page_state = page_state_name page_state_raw;
            (b_seq, p2) = fh_read f p1 4
        in
        ebind (unpack_unsigned 4 b_seq) (\<lambda>seq_no.
          let (b_version, p3) = fh_read f p2 1 in
          ebind (py_index b_version 0) (\<lambda>version_raw.
            let version = unat (xor version_raw 0xff) + 1;
                (unused, p4) = fh_read f p3 19;
                (b_crc, p5) = fh_read f p4 4
            in
            ebind (unpack_unsigned 4 b_crc) (\<lambda>crc_32. Inr (page_state, p5))))) = Inr (page_state, p)"
    unfolding read_page_header_def by (auto simp: ebind_eq_Inr)
  from rest have "page_state = page_state_name page_state_raw"
    by (auto simp: Let_def ebind_eq_Inr split: prod.splits)
  with raw b show ?thesis
    by (auto dest: unpack_unsigned_Inr)
qed

lemma decode_value_skip_exact:
  assumes "decode_value entries namespaces i entry_data entry_ns data = Inr (None, namespaces', i')"
  shows "i' = i + 1 \<or>
         (e_type entry_data \<in> {''STR'', ''BLOB'', ''BLOB_DATA''}
          \<and> (\<exists>sz. unpack_unsigned 2 (py_slice data 0 2) = Inr sz \<and> sz > 4032)
          \<and> i' = i + e_span entry_data)"
  using assms unfolding decode_value_def Let_def
  apply (simp only: split: if_split_asm)
  apply (simp_all add: ebind_eq_Inr)
  apply auto
  apply (simp_all split: if_split_asm)
  apply (simp_all add: ebind_eq_Inr)
  done

lemma nvs_types_variable:
  assumes "map_of nvs_types c = Some type_name"
    and "type_name \<in> {''STR'', ''BLOB'', ''BLOB_DATA''}"
  shows "c \<in> {0x21, 0x41, 0x42}"
  using assms by (auto simp: nvs_types_def split: if_splits)

lemma size_field_readable:
  assumes "unpack_unsigned 2 (py_slice (drop 24 entry) 0 2) = Inr sz"
  shows "26 \<le> length entry \<and> sz = le_nat (py_slice entry 24 26)"
  using assms by (auto simp: unpack_unsigned_def py_slice_def split: if_splits)

lemma data_chunks_loop_missing:
  assumes "\<forall>x \<in> set xs. i + x < 126"
    and "\<exists>x \<in> set xs. length entries \<le> i + x"
  shows "data_chunks_loop entries i xs data_chunks = Inl IndexError"
  using assms
proof (induction xs arbitrary: data_chunks)
  case Nil
  then show ?case by simp
next
  case (Cons x xs)
  show ?case
  proof (cases "i + x < length entries")
    case True
    with Cons.prems have "\<forall>x \<in> set xs. i + x < 126" "\<exists>x \<in> set xs. length entries \<le> i + x"
      by auto
    from Cons.IH [OF this] True Cons.prems(1) show ?thesis
      by (simp add: py_index_def ebind_simps)
  next
    case False
    with Cons.prems(1) show ?thesis
      by (simp add: py_index_def ebind_simps)
  qed
qed

lemma parse_slot_truncated:
  assumes "py_index entry_state_bitmap i = Inr CHR ''2''"
    and "py_index entries i = Inr entry"
    and "26 \<le> length entry"
    and "unat (entry ! 1) \<in> {0x21, 0x41, 0x42}"
    and "1 \<le> unat (entry ! 2)" and "unat (entry ! 2) \<le> 126 - i"
    and "length entries < i + unat (entry ! 2)"
    and "le_nat (py_slice entry 24 26) \<le> 4032"
  shows "parse_slot entries entry_state_bitmap namespaces i = Inl IndexError"
proof -
  note t = variable_type_name [OF assms(4)]
  from assms(3) have len: "4 \<le> length entry" by simp
  from assms(2) have il: "i < length entries"
    by (simp add: py_index_def split: if_splits)
  have a: "\<forall>x \<in> set [Suc 0..<unat (entry ! 2)]. i + x < 126"
    using assms(6) by auto
  have "length entries - i \<in> set [Suc 0..<unat (entry ! 2)]"
    using il assms(7) by auto
  then have b: "\<exists>x \<in> set [Suc 0..<unat (entry ! 2)]. length entries \<le> i + x"
    by (rule rev_bexI) simp
  show ?thesis
    using assms(8) t(2)
    by (simp add: parse_slot_decodes [OF assms(1,2) len t(1) assms(5,6)] decode_value_variable
          size_field [OF assms(3)] ebind_simps data_chunks_loop_missing [OF a b])
qed

lemma parse_loop_past_entries:
  assumes "length entries \<le> i"
  shows "parse_loop entries entry_state_bitmap i namespaces result = (result, namespaces)"
  using assms
proof (induction entries entry_state_bitmap i namespaces result rule: parse_loop.induct)
  case (1 entries entry_state_bitmap i namespaces result)
  show ?case
  proof (cases "i < 126")
    case False
    then show ?thesis by (subst parse_loop.simps) simp
  next
    case True
    obtain appended namespaces' i' where
      s: "parse_step entries entry_state_bitmap namespaces i = (appended, namespaces', i')"
      by (cases "parse_step entries entry_state_bitmap namespaces i") auto
    from s have skip: "appended = None \<and> namespaces' = namespaces \<and> i' = i + 1"
    proof (cases rule: parse_step_cases)
      case skip
      then show ?thesis by simp
    next
      case (decode entry type_name)
      with "1.prems" show ?thesis by (simp add: py_index_def)
    qed
    with "1.prems" have "length entries \<le> i'" by simp
    from "1.IH" [OF True s [symmetric] refl this] skip show ?thesis
      by (simp add: parse_loop_step [OF True s])
  qed
qed

section \<open>Claims about the slot parser\<close>

text \<open>
  C4. A Written slot at index \<open>i\<close> whose span byte is 0 or greater than the slots left in
  the page (\<open>126 - i\<close>) is discarded: no entry is produced, the namespace table is left
  as it was, exactly one slot is consumed and the loop goes on with slot \<open>i + 1\<close>.
\<close>

theorem invalid_span_consumes_one_slot:
  assumes "i < 126"
    and "py_index entry_state_bitmap i = Inr CHR ''2''"
    and "py_index entries i = Inr entry"
    and "py_index entry 2 = Inr entry_span"
    and "unat entry_span = 0 \<or> unat entry_span > 126 - i"
  shows "parse_step entries entry_state_bitmap namespaces i = (None, namespaces, i + 1)
       \<and> parse_loop entries entry_state_bitmap i namespaces result
           = parse_loop entries entry_state_bitmap (i + 1) namespaces result"
proof -
  from assms(4) have l3: "3 \<le> length entry" and sp: "entry ! 2 = entry_span"
    by (auto simp: py_index_def split: if_splits)
  have step: "parse_step entries entry_state_bitmap namespaces i = (None, namespaces, i + 1)"
  proof (cases "4 \<le> length entry")
    case True
    have "parse_slot entries entry_state_bitmap namespaces i = Inr (None, namespaces, i + 1)"
      using assms(5) sp
      by (auto simp: parse_slot_written [OF assms(2,3) True] split: option.splits)
    then show ?thesis by (rule parse_step_Inr)
  next
    case False
    with l3 have "length entry = 3" by simp
    then have "py_index entry 0 = Inr (entry ! 0)" "py_index entry 1 = Inr (entry ! 1)"
      "py_index entry 3 = Inl IndexError"
      by (simp_all add: py_index_def)
    with assms(2,3,4) have "parse_slot entries entry_state_bitmap namespaces i = Inl IndexError"
      by (simp add: parse_slot_def ebind_simps int_of_digit_2)
    then show ?thesis by (simp add: parse_step_def)
  qed
  with assms(1) show ?thesis
    by (simp add: parse_loop_step)
qed

theorem invalid_span_consumes_one_slot_witness:
  "parse_step [ex_slot_span0, ex_slot_u8] ''22'' [(0, ''System'')] 0 = (None, [(0, ''System'')], 1)
   \<and> parse_loop [ex_slot_span0, ex_slot_u8] ''22'' 0 [(0, ''System'')] []
       = parse_loop [ex_slot_span0, ex_slot_u8] ''22'' 1 [(0, ''System'')] []"
  using invalid_span_consumes_one_slot
          [of 0 "''22''" "[ex_slot_span0, ex_slot_u8]" ex_slot_span0 0 "[(0, ''System'')]" "[]"]
  by (simp add: py_index_def ex_slot_span0_def)

text \<open>
  C1, as amended. A Written slot of type STR, BLOB or BLOB\_DATA with a valid span whose
  declared size exceeds 4032 produces no entry and leaves the namespace table as it was,
  and the scan advances by the entry's span (\<open>i += entry_span\<close>), not by one slot.
\<close>

theorem oversized_entry_skips_span_slots:
  assumes "py_index entry_state_bitmap i = Inr CHR ''2''"
    and "py_index entries i = Inr entry"
    and "26 \<le> length entry"
    and "unat (entry ! 1) \<in> {0x21, 0x41, 0x42}"
    and "1 \<le> unat (entry ! 2)" and "unat (entry ! 2) \<le> 126 - i"
    and "le_nat (py_slice entry 24 26) > 4032"
  shows "parse_step entries entry_state_bitmap namespaces i
           = (None, namespaces, i + unat (entry ! 2))
       \<and> parse_loop entries entry_state_bitmap i namespaces result
           = parse_loop entries entry_state_bitmap (i + unat (entry ! 2)) namespaces result"
proof -
  have step: "parse_step entries entry_state_bitmap namespaces i
                = (None, namespaces, i + unat (entry ! 2))"
    using parse_slot_oversized [OF assms] by (rule parse_step_Inr)
  from assms(5,6) have "i < 126" by simp
  with step show ?thesis
    by (simp add: parse_loop_step)
qed

theorem oversized_entry_skips_span_slots_witness:
  "parse_step [ex_slot_oversized, ex_slot_u8] ''22'' [(0, ''System'')] 0
     = (None, [(0, ''System'')], 2)
   \<and> parse_loop [ex_slot_oversized, ex_slot_u8] ''22'' 0 [(0, ''System'')] []
       = parse_loop [ex_slot_oversized, ex_slot_u8] ''22'' 2 [(0, ''System'')] []"
proof -
  have span: "unat (ex_slot_oversized ! 2) = 2"
    by (simp add: ex_slot_oversized_def)
  show ?thesis
    using oversized_entry_skips_span_slots
            [of "''22''" 0 "[ex_slot_oversized, ex_slot_u8]" ex_slot_oversized
                "[(0, ''System'')]" "[]", unfolded span]
    by (simp add: py_index_def py_slice_def ex_slot_oversized_def
          del: add_2_eq_Suc add_2_eq_Suc')
qed

text \<open>
  The claim C1 as stated fails: the slot \<open>ex_slot_oversized\<close> (STR, span 2, declared
  size 5000) at index 0 takes the scan to index 2, so the Written U8 slot at index 1 is
  never looked at.
\<close>

theorem oversized_entry_advance_counterexample:
  "parse_step [ex_slot_oversized, ex_slot_u8] ''22'' [(0, ''System'')] 0
     = (None, [(0, ''System'')], 2)"
  by (simp add: parse_step_def parse_slot_def ebind_simps py_index_def int_of_digit_def
        ex_slot_oversized_def nvs_types_def decode_value_def unpack_unsigned_def py_slice_def)

text \<open>
  C3, as amended. For a Written STR, BLOB or BLOB\_DATA slot with a valid span and a
  declared size of at most 4032: when the slot buffer holds the \<open>span - 1\<close> slots that
  follow, the entry is decoded, its value is the first \<open>size\<close> bytes of the slot from
  offset 32 on (offset 8 of its value region) followed by those slots taken whole, as
  text with every byte above 0x7F dropped for STR and as two lowercase hexadecimal
  digits a byte for BLOB and BLOB\_DATA, the declared size is recorded and the scan
  advances by the span; when the buffer ends before the entry's last slot (a truncated
  page), no entry is produced and the scan advances by 1.
\<close>

theorem variable_length_value_is_truncated_payload:
  assumes "py_index entry_state_bitmap i = Inr CHR ''2''"
    and "py_index entries i = Inr entry"
    and "26 \<le> length entry"
    and "unat (entry ! 1) \<in> {0x21, 0x41, 0x42}"
    and "1 \<le> unat (entry ! 2)" and "unat (entry ! 2) \<le> 126 - i"
    and "le_nat (py_slice entry 24 26) \<le> 4032"
  shows "parse_step entries entry_state_bitmap namespaces i =
     (if i + unat (entry ! 2) \<le> length entries then
        (let payload = take (le_nat (py_slice entry 24 26))
                         (drop 32 entry
                          @ concat (map (\<lambda>x. entries ! (i + x)) [1..<unat (entry ! 2)]))
         in
         (Some \<lparr>e_key = decode_ascii_ignore (rstrip_nul (py_slice entry 8 24)),
                e_type = (if unat (entry ! 1) = 0x21 then ''STR''
                          else if unat (entry ! 1) = 0x41 then ''BLOB'' else ''BLOB_DATA''),
                e_namespace = namespace_name namespaces (unat (entry ! 0)),
                e_span = unat (entry ! 2), e_chunk_index = unat (entry ! 3),
                e_value = Some (StrV
                  (if unat (entry ! 1) = 0x21
                   then map (\<lambda>b. char_of (unat b)) (filter (\<lambda>b. unat b < 128) payload)
                   else concat (map (\<lambda>b. [''0123456789abcdef'' ! (unat b div 16),
                                           ''0123456789abcdef'' ! (unat b mod 16)]) payload))),
                e_size = Some (le_nat (py_slice entry 24 26))\<rparr>,
          namespaces, i + unat (entry ! 2)))
      else (None, namespaces, i + 1))"
proof (cases "i + unat (entry ! 2) \<le> length entries")
  case True
  from parse_slot_variable [OF assms(1-6) True assms(7), of namespaces] True
  show ?thesis
    by (simp add: parse_step_def decode_ascii_ignore_def hex_bytes_def hexdigit_def)
next
  case False
  then have "length entries < i + unat (entry ! 2)" by simp
  from parse_slot_truncated [OF assms(1-6) this assms(7), of namespaces] False
  show ?thesis
    by (simp add: parse_step_def)
qed

theorem variable_length_value_is_truncated_payload_witness:
  "parse_step [ex_slot_str, ex_slot_payload] ''22'' [(0, ''System'')] 0 =
     (Some \<lparr>e_key = ''greeting'', e_type = ''STR'', e_namespace = ''NS_1'', e_span = 2,
            e_chunk_index = 255, e_value = Some (StrV ''hi''), e_size = Some 2\<rparr>,
      [(0, ''System'')], 2)
   \<and> parse_step [ex_slot_str6, ex_slot_payload] ''22'' [(0, ''System'')] 0 =
     (Some \<lparr>e_key = ''greeting'', e_type = ''STR'', e_namespace = ''NS_1'', e_span = 2,
            e_chunk_index = 255, e_value = Some (StrV ''hi!!''), e_size = Some 6\<rparr>,
      [(0, ''System'')], 2)
   \<and> parse_step [ex_slot_blob_data, ex_slot_payload] ''22'' [(0, ''System'')] 0 =
     (Some \<lparr>e_key = ''cert'', e_type = ''BLOB_DATA'', e_namespace = ''NS_1'', e_span = 2,
            e_chunk_index = 0, e_value = Some (StrV ''68692121ffff''), e_size = Some 6\<rparr>,
      [(0, ''System'')], 2)
   \<and> parse_step [ex_slot_str] ''2'' [(0, ''System'')] 0 = (None, [(0, ''System'')], 1)"
proof -
  have span: "unat (ex_slot_str ! 2) = 2" "unat (ex_slot_str6 ! 2) = 2"
    "unat (ex_slot_blob_data ! 2) = 2"
    by (simp_all add: ex_slot_str_def ex_slot_str6_def ex_slot_blob_data_def)
  have range: "[Suc 0..<2] = [Suc 0]"
    by (simp add: numeral_2_eq_2)
  have a: "parse_step [ex_slot_str, ex_slot_payload] ''22'' [(0, ''System'')] 0 =
     (Some \<lparr>e_key = ''greeting'', e_type = ''STR'', e_namespace = ''NS_1'', e_span = 2,
            e_chunk_index = 255, e_value = Some (StrV ''hi''), e_size = Some 2\<rparr>,
      [(0, ''System'')], 2)"
    using variable_length_value_is_truncated_payload
            [of "''22''" 0 "[ex_slot_str, ex_slot_payload]" ex_slot_str "[(0, ''System'')]",
             unfolded span]
    by (simp add: py_index_def py_slice_def ex_slot_str_def ex_slot_payload_def
          decode_ascii_ignore_def rstrip_nul_def namespace_name_def char_of_eq_iff range
          del: add_2_eq_Suc add_2_eq_Suc')
  have b: "parse_step [ex_slot_str6, ex_slot_payload] ''22'' [(0, ''System'')] 0 =
     (Some \<lparr>e_key = ''greeting'', e_type = ''STR'', e_namespace = ''NS_1'', e_span = 2,
            e_chunk_index = 255, e_value = Some (StrV ''hi!!''), e_size = Some 6\<rparr>,
      [(0, ''System'')], 2)"
    using variable_length_value_is_truncated_payload
            [of "''22''" 0 "[ex_slot_str6, ex_slot_payload]" ex_slot_str6 "[(0, ''System'')]",
             unfolded span]
    by (simp add: py_index_def py_slice_def ex_slot_str6_def ex_slot_payload_def
          decode_ascii_ignore_def rstrip_nul_def namespace_name_def char_of_eq_iff range
          del: add_2_eq_Suc add_2_eq_Suc')
  have c: "parse_step [ex_slot_blob_data, ex_slot_payload] ''22'' [(0, ''System'')] 0 =
     (Some \<lparr>e_key = ''cert'', e_type = ''BLOB_DATA'', e_namespace = ''NS_1'', e_span = 2,
            e_chunk_index = 0, e_value = Some (StrV ''68692121ffff''), e_size = Some 6\<rparr>,
      [(0, ''System'')], 2)"
    using variable_length_value_is_truncated_payload
            [of "''22''" 0 "[ex_slot_blob_data, ex_slot_payload]" ex_slot_blob_data
                "[(0, ''System'')]", unfolded span]
    by (simp add: py_index_def py_slice_def ex_slot_blob_data_def ex_slot_payload_def
          decode_ascii_ignore_def rstrip_nul_def namespace_name_def char_of_eq_iff range
          del: add_2_eq_Suc add_2_eq_Suc')
  have d: "parse_step [ex_slot_str] ''2'' [(0, ''System'')] 0 = (None, [(0, ''System'')], 1)"
    using variable_length_value_is_truncated_payload
            [of "''2''" 0 "[ex_slot_str]" ex_slot_str "[(0, ''System'')]", unfolded span]
    by (simp add: py_index_def py_slice_def ex_slot_str_def
          del: add_2_eq_Suc add_2_eq_Suc')
  from a b c d show ?thesis by (intro conjI)
qed

text \<open>
  The claim C3 as stated fails on a truncated page: the STR slot \<open>ex_slot_str\<close> (valid
  span 2, declared size 2) is the only slot the buffer holds, reading its continuation
  slot raises \<open>IndexError\<close>, and the step produces no entry.
\<close>

theorem truncated_buffer_counterexample:
  "parse_step [ex_slot_str] ''2'' [(0, ''System'')] 0 = (None, [(0, ''System'')], 1)"
proof -
  have range: "[Suc 0..<2] = [Suc 0]"
    by (simp add: numeral_2_eq_2)
  show ?thesis
    by (simp add: parse_step_def parse_slot_def ebind_simps py_index_def int_of_digit_def
          ex_slot_str_def nvs_types_def decode_value_def unpack_unsigned_def py_slice_def
          range)
qed

text \<open>
  C9, as amended. The entry-parsing loop terminates, for every slot buffer, bitmap and
  namespace table: each iteration moves the slot index strictly forward. A Written STR,
  BLOB or BLOB\_DATA slot with a valid span whose declared size exceeds 4032 is skipped
  and advances the index by its span; in every other case a step that produces an entry
  advances by that entry's validated span (between 1 and \<open>126 - i\<close>), and a step that
  produces none (any other skip, any exception) advances by exactly 1. So from index
  \<open>i\<close> the loop makes at most \<open>126 - i\<close> iterations, 126 in all.
\<close>

theorem parse_loop_advances_and_terminates:
  "parse_iterations entries entry_state_bitmap i namespaces \<le> 126 - i
   \<and> (case parse_step entries entry_state_bitmap namespaces i of
        (appended, namespaces', i') \<Rightarrow>
          i < i'
          \<and> (if py_index entry_state_bitmap i = Inr CHR ''2''
                 \<and> i < length entries \<and> 26 \<le> length (entries ! i)
                 \<and> unat (entries ! i ! 1) \<in> {0x21, 0x41, 0x42}
                 \<and> 1 \<le> unat (entries ! i ! 2) \<and> unat (entries ! i ! 2) \<le> 126 - i
                 \<and> 4032 < le_nat (py_slice (entries ! i) 24 26)
              then appended = None \<and> i' = i + unat (entries ! i ! 2)
              else (case appended of
                      Some e \<Rightarrow> e_span e = unat (entries ! i ! 2) \<and> 1 \<le> e_span e
                                \<and> e_span e \<le> 126 - i \<and> i' = i + e_span e
                    | None \<Rightarrow> i' = i + 1)))"
proof -
  let ?oversized = "py_index entry_state_bitmap i = Inr CHR ''2''
                 \<and> i < length entries \<and> 26 \<le> length (entries ! i)
                 \<and> unat (entries ! i ! 1) \<in> {0x21, 0x41, 0x42}
                 \<and> 1 \<le> unat (entries ! i ! 2) \<and> unat (entries ! i ! 2) \<le> 126 - i
                 \<and> 4032 < le_nat (py_slice (entries ! i) 24 26)"
  obtain appended namespaces' i' where
    s: "parse_step entries entry_state_bitmap namespaces i = (appended, namespaces', i')"
    by (cases "parse_step entries entry_state_bitmap namespaces i") auto
  have adv: "i < i'"
    using s by (rule parse_step_advances)
  have shape: "if ?oversized then appended = None \<and> i' = i + unat (entries ! i ! 2)
     else (case appended of
             Some e \<Rightarrow> e_span e = unat (entries ! i ! 2) \<and> 1 \<le> e_span e
                       \<and> e_span e \<le> 126 - i \<and> i' = i + e_span e
           | None \<Rightarrow> i' = i + 1)"
  proof (cases ?oversized)
    case True
    then have e: "py_index entries i = Inr (entries ! i)"
      by (simp add: py_index_def)
    from True have "parse_slot entries entry_state_bitmap namespaces i
                 = Inr (None, namespaces, i + unat (entries ! i ! 2))"
      by (intro parse_slot_oversized e) simp_all
    then have "parse_step entries entry_state_bitmap namespaces i
                 = (None, namespaces, i + unat (entries ! i ! 2))"
      by (rule parse_step_Inr)
    with s True show ?thesis by simp
  next
    case False
    from s have "case appended of
             Some e \<Rightarrow> e_span e = unat (entries ! i ! 2) \<and> 1 \<le> e_span e
                       \<and> e_span e \<le> 126 - i \<and> i' = i + e_span e
           | None \<Rightarrow> i' = i + 1"
    proof (cases rule: parse_step_cases)
      case skip
      then show ?thesis by simp
    next
      case (decode entry type_name)
      from decode(2) have ei: "i < length entries" "entries ! i = entry"
        by (auto simp: py_index_def split: if_splits)
      show ?thesis
      proof (cases appended)
        case (Some e)
        from decode(7) [unfolded Some] have "e_span e = unat (entry ! 2)" "i' = i + unat (entry ! 2)"
          by (auto dest!: decode_value_entry)
        with Some decode(5,6) ei show ?thesis by simp
      next
        case None
        from decode_value_skip_exact [OF decode(7) [unfolded None]]
        show ?thesis
        proof
          assume "i' = i + 1"
          with None show ?thesis by simp
        next
          assume o: "e_type
             \<lparr>e_key = decode_ascii_ignore (rstrip_nul (py_slice entry 8 24)), e_type = type_name,
              e_namespace = namespace_name namespaces (unat (entry ! 0)),
              e_span = unat (entry ! 2), e_chunk_index = unat (entry ! 3),
              e_value = None, e_size = None\<rparr> \<in> {''STR'', ''BLOB'', ''BLOB_DATA''}
            \<and> (\<exists>sz. unpack_unsigned 2 (py_slice (drop 24 entry) 0 2) = Inr sz \<and> sz > 4032)
            \<and> i' = i + e_span
             \<lparr>e_key = decode_ascii_ignore (rstrip_nul (py_slice entry 8 24)), e_type = type_name,
              e_namespace = namespace_name namespaces (unat (entry ! 0)),
              e_span = unat (entry ! 2), e_chunk_index = unat (entry ! 3),
              e_value = None, e_size = None\<rparr>"
          then have "type_name \<in> {''STR'', ''BLOB'', ''BLOB_DATA''}" by simp
          with decode(4) have ty: "unat (entry ! 1) \<in> {0x21, 0x41, 0x42}"
            by (rule nvs_types_variable)
          from o obtain sz where "unpack_unsigned 2 (py_slice (drop 24 entry) 0 2) = Inr sz"
            "sz > 4032" by blast
          with size_field_readable have "26 \<le> length entry" "4032 < le_nat (py_slice entry 24 26)"
            by blast+
          with ty decode(1,5,6) ei have ?oversized by simp
          with False show ?thesis by simp
        qed
      qed
    qed
    then show ?thesis by (simp only: False if_False)
  qed
  have "parse_iterations entries entry_state_bitmap i namespaces \<le> 126 - i"
    by (rule parse_iterations_bound)
  with adv shape show ?thesis
    by (simp only: s prod.case)
qed

theorem parse_loop_advances_and_terminates_witness:
  "parse_iterations [ex_slot_oversized, ex_slot_u8] ''22'' 0 [(0, ''System'')] \<le> 126
   \<and> fst (parse_step [ex_slot_oversized, ex_slot_u8] ''22'' [(0, ''System'')] 0) = None
   \<and> snd (snd (parse_step [ex_slot_oversized, ex_slot_u8] ''22'' [(0, ''System'')] 0)) = 2
   \<and> snd (snd (parse_step [ex_slot_oversized, ex_slot_u8] ''22'' [(0, ''System'')] 1)) = 2
   \<and> snd (snd (parse_step [ex_slot_any, ex_slot_u8] ''22'' [(0, ''System'')] 0)) = 1"
proof -
  have span: "unat ([ex_slot_oversized, ex_slot_u8] ! 0 ! 2) = 2"
    "unat ([ex_slot_oversized, ex_slot_u8] ! 1 ! 2) = 1"
    "unat ([ex_slot_any, ex_slot_u8] ! 0 ! 1) = 255"
    by (simp_all add: ex_slot_oversized_def ex_slot_u8_def ex_slot_any_def)
  have any: "fst (parse_step [ex_slot_any, ex_slot_u8] ''22'' [(0, ''System'')] 0) = None"
    by (simp add: parse_step_def parse_slot_def ebind_simps py_index_def int_of_digit_def
          ex_slot_any_def nvs_types_def decode_value_def)
  show ?thesis
    using parse_loop_advances_and_terminates
            [of "[ex_slot_oversized, ex_slot_u8]" "''22''" 0 "[(0, ''System'')]", unfolded span]
          parse_loop_advances_and_terminates
            [of "[ex_slot_oversized, ex_slot_u8]" "''22''" 1 "[(0, ''System'')]", unfolded span]
          parse_loop_advances_and_terminates
            [of "[ex_slot_any, ex_slot_u8]" "''22''" 0 "[(0, ''System'')]", unfolded span]
          any
    by (auto simp: py_index_def py_slice_def ex_slot_oversized_def
          split: prod.splits option.splits if_splits
          simp del: add_2_eq_Suc add_2_eq_Suc')
qed

text \<open>
  The claim C9 as stated fails where it says that every skip advances by 1: the BLOB slot
  \<open>ex_slot_blob_oversized\<close> (span 3, declared size 4033) at index 1 is skipped and takes
  the scan from index 1 to index 4.
\<close>

theorem skip_advances_by_span_counterexample:
  "parse_step [ex_slot_u8, ex_slot_blob_oversized, ex_slot_payload, ex_slot_payload] ''2222''
     [(0, ''System'')] 1
     = (None, [(0, ''System'')], 4)"
  by (simp add: parse_step_def parse_slot_def ebind_simps py_index_def int_of_digit_def
        ex_slot_blob_oversized_def nvs_types_def decode_value_def unpack_unsigned_def
        py_slice_def)

text \<open>
  C2, as amended. An entry's namespace name is the one the namespace table holds when its
  slot is parsed: the name stored for the entry's namespace id, or the fallback
  \<open>NS_<id>\<close> when the table has none. The scan starts from the table that maps id 0
  to \<open>System\<close>. A step changes the table only when it decodes a U8 entry of namespace
  0, which binds the entry's value to its key, and the rest of the page is parsed with
  the table that step leaves; the next page is parsed with the table the page before it
  leaves. So an id other than 0 with no earlier definition resolves to \<open>NS_<id>\<close>,
  id 0 with no earlier definition resolves to \<open>System\<close>, and an id defined earlier
  resolves to its latest defined name. The entries already in the result stay a prefix of
  the final result: a later definition renames none of them.
\<close>

theorem namespace_resolved_when_parsed:
  assumes "i < 126"
    and "parse_step entries entry_state_bitmap namespaces i = (appended, namespaces', i')"
    and "sector_pos < length f"
  shows "parse_loop entries entry_state_bitmap i namespaces result
           = parse_loop entries entry_state_bitmap i' namespaces'
               (case appended of None \<Rightarrow> result | Some e \<Rightarrow> result @ [e])
      \<and> prefix (case appended of None \<Rightarrow> result | Some e \<Rightarrow> result @ [e])
           (fst (parse_loop entries entry_state_bitmap i namespaces result))
      \<and> (case appended of
            None \<Rightarrow> namespaces' = namespaces
          | Some e \<Rightarrow>
              e_namespace e =
                (case map_of namespaces (unat (entries ! i ! 0)) of
                   Some name \<Rightarrow> name
                 | None \<Rightarrow> ''NS_'' @ str_nat (unat (entries ! i ! 0)))
              \<and> namespaces' =
                (if e_type e = ''U8'' \<and> unat (entries ! i ! 0) = 0
                 then AList.update (le_nat (py_slice (entries ! i) 24 25)) (e_key e) namespaces
                 else namespaces))
      \<and> (case read_page f sector_pos namespaces of
            Inl err \<Rightarrow>
              pages_loop f sector_pos namespaces page_result
                = pages_loop f (sector_pos + 4096) namespaces page_result
          | Inr (page_entries, page_namespaces) \<Rightarrow>
              pages_loop f sector_pos namespaces page_result
                = pages_loop f (sector_pos + 4096) page_namespaces (page_result @ page_entries)
              \<and> ((page_entries, page_namespaces) = ([], namespaces)
                   \<or> (\<exists>page_slots page_bitmap.
                         parse_loop page_slots page_bitmap 0 namespaces []
                           = (page_entries, page_namespaces))))
      \<and> prefix page_result (fst (pages_loop f sector_pos namespaces page_result))
      \<and> read_nvs_pages f = pages_loop f 0 [(0, ''System'')] []"
proof -
  let ?result' = "case appended of None \<Rightarrow> result | Some e \<Rightarrow> result @ [e]"
  have loop: "parse_loop entries entry_state_bitmap i namespaces result
           = parse_loop entries entry_state_bitmap i' namespaces' ?result'"
    by (rule parse_loop_step [OF assms(1,2)])
  have "prefix ?result' (fst (parse_loop entries entry_state_bitmap i' namespaces' ?result'))"
    by (rule parse_loop_prefix)
  then have earlier: "prefix ?result' (fst (parse_loop entries entry_state_bitmap i namespaces result))"
    by (simp only: loop)
  have step: "case appended of
            None \<Rightarrow> namespaces' = namespaces
          | Some e \<Rightarrow>
              e_namespace e =
                (case map_of namespaces (unat (entries ! i ! 0)) of
                   Some name \<Rightarrow> name
                 | None \<Rightarrow> ''NS_'' @ str_nat (unat (entries ! i ! 0)))
              \<and> namespaces' =
                (if e_type e = ''U8'' \<and> unat (entries ! i ! 0) = 0
                 then AList.update (le_nat (py_slice (entries ! i) 24 25)) (e_key e) namespaces
                 else namespaces)"
    using assms(2)
  proof (cases rule: parse_step_cases)
    case skip
    then show ?thesis by simp
  next
    case (decode entry type_name)
    from decode(2) have ei: "entries ! i = entry"
      by (auto simp: py_index_def split: if_splits)
    note tab = decode_value_table [OF decode(7)]
    show ?thesis
    proof (cases appended)
      case None
      from decode(7) [unfolded None] have "type_name \<noteq> ''U8''"
        unfolding decode_value_def Let_def
        by (auto simp: ebind_eq_Inr)
      with tab None show ?thesis by simp
    next
      case (Some e)
      note d = decode_value_entry [OF decode(7) [unfolded Some]]
      from d have "e_namespace e =
                (case map_of namespaces (unat (entry ! 0)) of
                   Some name \<Rightarrow> name
                 | None \<Rightarrow> ''NS_'' @ str_nat (unat (entry ! 0)))"
        by (simp add: namespace_name_def)
      moreover from tab d have "namespaces' =
                (if e_type e = ''U8'' \<and> unat (entry ! 0) = 0
                 then AList.update (le_nat (py_slice entry 24 25)) (e_key e) namespaces
                 else namespaces)"
        by (simp add: py_slice_def)
      ultimately show ?thesis
        using Some unfolding ei [symmetric] by simp
    qed
  qed
  have pages: "case read_page f sector_pos namespaces of
            Inl err \<Rightarrow>
              pages_loop f sector_pos namespaces page_result
                = pages_loop f (sector_pos + 4096) namespaces page_result
          | Inr (page_entries, page_namespaces) \<Rightarrow>
              pages_loop f sector_pos namespaces page_result
                = pages_loop f (sector_pos + 4096) page_namespaces (page_result @ page_entries)
              \<and> ((page_entries, page_namespaces) = ([], namespaces)
                   \<or> (\<exists>page_slots page_bitmap.
                         parse_loop page_slots page_bitmap 0 namespaces []
                           = (page_entries, page_namespaces)))"
  proof (cases "read_page f sector_pos namespaces")
    case (Inl err)
    with assms(3) show ?thesis
      by (subst pages_loop.simps) simp
  next
    case (Inr r)
    obtain page_entries page_namespaces where r: "r = (page_entries, page_namespaces)"
      by (cases r) auto
    have a: "pages_loop f sector_pos namespaces page_result
                = pages_loop f (sector_pos + 4096) page_namespaces (page_result @ page_entries)"
      using assms(3) Inr r by (subst pages_loop.simps) simp
    from Inr r have "(page_entries, page_namespaces) = ([], namespaces)
                   \<or> (\<exists>page_slots page_bitmap.
                         parse_loop page_slots page_bitmap 0 namespaces []
                           = (page_entries, page_namespaces))"
      unfolding read_page_def parse_nvs_entries_def
      by (auto simp: ebind_eq_Inr Let_def split: if_splits prod.splits)
    with a Inr r show ?thesis by simp
  qed
  from loop earlier step pages show ?thesis
    by (simp only: pages_loop_prefix read_nvs_pages_def simp_thms)
qed

theorem namespace_resolved_when_parsed_witness:
  "parse_nvs_entries [ex_slot_in_ns5, ex_slot_ns_def, ex_slot_in_ns5] ''222'' [(0, ''System'')]
     = ([\<lparr>e_key = ''ssid_len'', e_type = ''U32'', e_namespace = ''NS_5'', e_span = 1,
          e_chunk_index = 255, e_value = Some (IntV 305419896), e_size = None\<rparr>,
         \<lparr>e_key = ''wifi'', e_type = ''U8'', e_namespace = ''System'', e_span = 1,
          e_chunk_index = 255, e_value = Some (IntV 5), e_size = None\<rparr>,
         \<lparr>e_key = ''ssid_len'', e_type = ''U32'', e_namespace = ''wifi'', e_span = 1,
          e_chunk_index = 255, e_value = Some (IntV 305419896), e_size = None\<rparr>],
        [(0, ''System''), (5, ''wifi'')])"
proof -
  let ?slots = "[ex_slot_in_ns5, ex_slot_ns_def, ex_slot_in_ns5]"
  let ?e1 = "\<lparr>e_key = ''ssid_len'', e_type = ''U32'', e_namespace = ''NS_5'', e_span = 1,
          e_chunk_index = 255, e_value = Some (IntV 305419896), e_size = None\<rparr>"
  let ?e2 = "\<lparr>e_key = ''wifi'', e_type = ''U8'', e_namespace = ''System'', e_span = 1,
          e_chunk_index = 255, e_value = Some (IntV 5), e_size = None\<rparr>"
  let ?e3 = "\<lparr>e_key = ''ssid_len'', e_type = ''U32'', e_namespace = ''wifi'', e_span = 1,
          e_chunk_index = 255, e_value = Some (IntV 305419896), e_size = None\<rparr>"
  have s0: "parse_step ?slots ''222'' [(0, ''System'')] 0 = (Some ?e1, [(0, ''System'')], 1)"
    by (simp add: parse_step_def parse_slot_def ebind_simps py_index_def int_of_digit_def
          ex_slot_in_ns5_def nvs_types_def decode_value_def unpack_unsigned_def py_slice_def
          rstrip_nul_def decode_ascii_ignore_def namespace_name_def char_of_eq_iff)
  have s1: "parse_step ?slots ''222'' [(0, ''System'')] 1
              = (Some ?e2, [(0, ''System''), (5, ''wifi'')], 2)"
    by (simp add: parse_step_def parse_slot_def ebind_simps py_index_def int_of_digit_def
          ex_slot_ns_def_def nvs_types_def decode_value_def unpack_unsigned_def py_slice_def
          rstrip_nul_def decode_ascii_ignore_def namespace_name_def char_of_eq_iff)
  have s2: "parse_step ?slots ''222'' [(0, ''System''), (5, ''wifi'')] 2
              = (Some ?e3, [(0, ''System''), (5, ''wifi'')], 3)"
    by (simp add: parse_step_def parse_slot_def ebind_simps py_index_def int_of_digit_def
          ex_slot_in_ns5_def nvs_types_def decode_value_def unpack_unsigned_def py_slice_def
          rstrip_nul_def decode_ascii_ignore_def namespace_name_def char_of_eq_iff)
  have f: "(0::nat) < length [0xFE :: byte]" by simp
  have "parse_loop ?slots ''222'' 0 [(0, ''System'')] []
          = parse_loop ?slots ''222'' 1 [(0, ''System'')] [?e1]"
    using namespace_resolved_when_parsed [OF _ s0 f, of "[]"] by simp
  also have "\<dots> = parse_loop ?slots ''222'' 2 [(0, ''System''), (5, ''wifi'')] [?e1, ?e2]"
    using namespace_resolved_when_parsed [OF _ s1 f, of "[?e1]"] by simp
  also have "\<dots> = parse_loop ?slots ''222'' 3 [(0, ''System''), (5, ''wifi'')] [?e1, ?e2, ?e3]"
    using namespace_resolved_when_parsed [OF _ s2 f, of "[?e1, ?e2]"] by simp
  also have "\<dots> = ([?e1, ?e2, ?e3], [(0, ''System''), (5, ''wifi'')])"
    by (rule parse_loop_past_entries) simp
  finally show ?thesis
    by (simp only: parse_nvs_entries_def)
qed

text \<open>
  The claim C2 as stated fails for namespace id 0: with no U8 definition parsed before
  it, the U32 entry \<open>ex_slot_in_ns0\<close> of namespace 0, at slot 0 under the table the scan
  starts with, gets the name \<open>System\<close> and not the fallback \<open>NS_0\<close>.
\<close>

theorem namespace_zero_counterexample:
  "parse_step [ex_slot_in_ns0] ''2'' [(0, ''System'')] 0
     = (Some \<lparr>e_key = ''boot'', e_type = ''U32'', e_namespace = ''System'', e_span = 1,
              e_chunk_index = 255, e_value = Some (IntV 1), e_size = None\<rparr>,
        [(0, ''System'')], 1)"
  by (simp add: parse_step_def parse_slot_def ebind_simps py_index_def int_of_digit_def
        ex_slot_in_ns0_def nvs_types_def decode_value_def unpack_unsigned_def py_slice_def
        rstrip_nul_def decode_ascii_ignore_def namespace_name_def char_of_eq_iff)

section \<open>Claims about the page scan\<close>

text \<open>
  C5. A page whose header state is neither ACTIVE (0xFFFFFFFE) nor FULL (0xFFFFFFFC)
  adds no entry and changes no namespace, and the scan goes on one stride of 4096 bytes
  further; a page whose read raises an exception is skipped in the same way. The scan is
  a total function of the file: no page ends it early.
\<close>

theorem bad_page_skipped_scan_continues:
  assumes "sector_pos < length f"
    and "le_nat (py_slice f sector_pos (sector_pos + 4)) \<notin> {0xFFFFFFFE, 0xFFFFFFFC}
         \<or> (\<exists>e. read_page f sector_pos namespaces = Inl e)"
  shows "pages_loop f sector_pos namespaces result
           = pages_loop f (sector_pos + 4096) namespaces result"
proof (cases "read_page f sector_pos namespaces")
  case (Inl e)
  with assms(1) show ?thesis
    by (subst pages_loop.simps) simp
next
  case (Inr r)
  with assms(2) have raw: "le_nat (py_slice f sector_pos (sector_pos + 4)) \<notin> {0xFFFFFFFE, 0xFFFFFFFC}"
    by auto
  from Inr obtain page_state p5 where
    h: "read_page_header f sector_pos = Inr (page_state, p5)"
    unfolding read_page_def by (auto simp: ebind_eq_Inr)
  have "page_state_name (le_nat (py_slice f sector_pos (sector_pos + 4)))
          \<notin> {''ACTIVE'', ''FULL''}"
  proof
    assume "page_state_name (le_nat (py_slice f sector_pos (sector_pos + 4)))
              \<in> {''ACTIVE'', ''FULL''}"
    then have "le_nat (py_slice f sector_pos (sector_pos + 4)) \<in> {0xFFFFFFFE, 0xFFFFFFFC}"
      by (rule iffD1 [OF page_state_name_active])
    with raw show False by (rule notE)
  qed
  with read_page_header_state [OF h] have "page_state \<notin> {''ACTIVE'', ''FULL''}"
    by simp
  with Inr h have "r = ([], namespaces)"
    unfolding read_page_def by (simp add: ebind_simps)
  with Inr assms(1) show ?thesis
    by (subst pages_loop.simps) simp
qed

theorem bad_page_skipped_scan_continues_witness:
  "pages_loop [0xF8, 0xFF, 0xFF, 0xFF, 0x01] 0 [(0, ''System'')] []
     = pages_loop [0xF8, 0xFF, 0xFF, 0xFF, 0x01] 4096 [(0, ''System'')] []
   \<and> pages_loop [0xFE, 0xFF, 0xFF] 0 [(0, ''System'')] []
     = pages_loop [0xFE, 0xFF, 0xFF] 4096 [(0, ''System'')] []"
proof -
  have "read_page [0xFE, 0xFF, 0xFF] 0 [(0, ''System'')] = Inl StructError"
    by (simp add: read_page_def read_page_header_def fh_read_def unpack_unsigned_def ebind_simps)
  then show ?thesis
    using bad_page_skipped_scan_continues
            [of 0 "[0xF8, 0xFF, 0xFF, 0xFF, 0x01]" "[(0, ''System'')]" "[]"]
          bad_page_skipped_scan_continues
            [of 0 "[0xFE, 0xFF, 0xFF]" "[(0, ''System'')]" "[]"]
    by (simp add: py_slice_def)
qed

section \<open>Properties of the CSV encoder\<close>

lemma dict_get_list_dict_append:
  "dict_get_list (dict_append k v d) k' =
     (if k' = k then dict_get_list d k @ [v] else dict_get_list d k')"
  by (induction d) (auto simp: dict_get_list_def)

lemma dict_get_list_foldl:
  "dict_get_list (foldl (\<lambda>d x. dict_append (kf x) (vf x) d) d0 xs) k =
     dict_get_list d0 k @ map vf (filter (\<lambda>x. kf x = k) xs)"
  by (induction xs arbitrary: d0) (simp_all add: dict_get_list_dict_append)

lemma dict_get_list_group_by_namespace:
  "dict_get_list (group_by_namespace es) ns_name = filter (\<lambda>e. e_namespace e = ns_name) es"
  using dict_get_list_foldl [of e_namespace "\<lambda>e. e" "[]" es ns_name]
  by (simp add: group_by_namespace_def dict_get_list_def)

lemma map_of_dict_append:
  "map_of (dict_append k v d) k' =
     (if k' = k then Some (dict_get_list d k @ [v]) else map_of d k')"
  by (induction d) (auto simp: dict_get_list_def)

lemma dom_dict_append:
  "dom (map_of (dict_append k v d)) = insert k (dom (map_of d))"
  by (auto simp: map_of_dict_append dom_def)

lemma group_entries_drops_blob_idx:
  "group_entries (filter (\<lambda>e. e_type e \<noteq> ''BLOB_IDX'') es) blob_data_by_key non_blob_entries
     = group_entries es blob_data_by_key non_blob_entries"
  by (induction es arbitrary: blob_data_by_key non_blob_entries)
     (simp_all split: option.splits)

lemma group_entries_others:
  assumes "group_entries es blob_data_by_key non_blob_entries = Inr (blobs, others)"
  shows "others = non_blob_entries
           @ filter (\<lambda>e. e_type e \<noteq> ''BLOB_DATA'' \<and> e_type e \<noteq> ''BLOB_IDX'') es"
  using assms
proof (induction es arbitrary: blob_data_by_key non_blob_entries)
  case Nil
  then show ?case by (simp)
next
  case (Cons a es)
  show ?case
  proof (cases "e_type a = ''BLOB_DATA''")
    case True
    with Cons.prems obtain v where v: "e_value a = Some v"
      and rest: "group_entries es
                   (dict_append (e_key a) (e_chunk_index a, v) blob_data_by_key)
                   non_blob_entries = Inr (blobs, others)"
      by (auto split: option.splits)
    from Cons.IH [OF rest] True v show ?thesis
      by (auto)
  next
    case False
    show ?thesis
    proof (cases "e_type a = ''BLOB_IDX''")
      case True
      with False Cons.prems have "group_entries es blob_data_by_key non_blob_entries
                                    = Inr (blobs, others)"
        by simp
      from Cons.IH [OF this] True False show ?thesis
        by (auto)
    next
      case idx: False
      with False Cons.prems have "group_entries es blob_data_by_key (non_blob_entries @ [a])
                                    = Inr (blobs, others)"
        by simp
      from Cons.IH [OF this] idx False show ?thesis
        by (auto)
    qed
  qed
qed

lemma group_entries_blobs:
  assumes "group_entries es blob_data_by_key non_blob_entries = Inr (blobs, others)"
  shows "dict_get_list blobs k = dict_get_list blob_data_by_key k @ blob_group k es"
  using assms
proof (induction es arbitrary: blob_data_by_key non_blob_entries)
  case Nil
  then show ?case by (simp add: blob_group_def dict_get_list_dict_append)
next
  case (Cons a es)
  show ?case
  proof (cases "e_type a = ''BLOB_DATA''")
    case True
    with Cons.prems obtain v where v: "e_value a = Some v"
      and rest: "group_entries es
                   (dict_append (e_key a) (e_chunk_index a, v) blob_data_by_key)
                   non_blob_entries = Inr (blobs, others)"
      by (auto split: option.splits)
    from Cons.IH [OF rest] True v show ?thesis
      by (auto simp: blob_group_def dict_get_list_dict_append)
  next
    case False
    show ?thesis
    proof (cases "e_type a = ''BLOB_IDX''")
      case True
      with False Cons.prems have "group_entries es blob_data_by_key non_blob_entries
                                    = Inr (blobs, others)"
        by simp
      from Cons.IH [OF this] True False show ?thesis
        by (auto simp: blob_group_def dict_get_list_dict_append)
    next
      case idx: False
      with False Cons.prems have "group_entries es blob_data_by_key (non_blob_entries @ [a])
                                    = Inr (blobs, others)"
        by simp
      from Cons.IH [OF this] idx False show ?thesis
        by (auto simp: blob_group_def dict_get_list_dict_append)
    qed
  qed
qed

lemma group_entries_keys:
  assumes "group_entries es blob_data_by_key non_blob_entries = Inr (blobs, others)"
  shows "dom (map_of blobs) = dom (map_of blob_data_by_key)
           \<union> e_key ` {e \<in> set es. e_type e = ''BLOB_DATA''}"
  using assms
proof (induction es arbitrary: blob_data_by_key non_blob_entries)
  case Nil
  then show ?case by (simp add: dom_dict_append)
next
  case (Cons a es)
  show ?case
  proof (cases "e_type a = ''BLOB_DATA''")
    case True
    with Cons.prems obtain v where v: "e_value a = Some v"
      and rest: "group_entries es
                   (dict_append (e_key a) (e_chunk_index a, v) blob_data_by_key)
                   non_blob_entries = Inr (blobs, others)"
      by (auto split: option.splits)
    from Cons.IH [OF rest] True v show ?thesis
      by (auto simp: dom_dict_append)
  next
    case False
    show ?thesis
    proof (cases "e_type a = ''BLOB_IDX''")
      case True
      with False Cons.prems have "group_entries es blob_data_by_key non_blob_entries
                                    = Inr (blobs, others)"
        by simp
      from Cons.IH [OF this] True False show ?thesis
        by (auto simp: dom_dict_append)
    next
      case idx: False
      with False Cons.prems have "group_entries es blob_data_by_key (non_blob_entries @ [a])
                                    = Inr (blobs, others)"
        by simp
      from Cons.IH [OF this] idx False show ?thesis
        by (auto simp: dom_dict_append)
    qed
  qed
qed

lemma is_namespace_row_simps:
  "is_namespace_row Header = False"
  "is_namespace_row (NamespaceRow ns_name) = True"
  "is_namespace_row (FileRow k blob_path) = False"
  "is_namespace_row (DataRow k encoding v) = False"
  by (simp_all add: is_namespace_row_def)

lemma emap_Inr_iff:
  "emap g xs = Inr ys \<longleftrightarrow> list_all2 (\<lambda>x y. g x = Inr y) xs ys"
  by (induction xs arbitrary: ys) (auto simp: ebind_eq_Inr list_all2_Cons1)

lemma write_blob_file_Inr:
  assumes "write_blob_file uuid4_hex blob_values output_dir st = Inr (blob_path, st')"
  shows "\<exists>contents. blob_contents blob_values = Inr contents
           \<and> written st' = written st @ [(blob_path, contents)]"
  using assms by (auto simp: write_blob_file_def Let_def ebind_eq_Inr)

lemma write_blobs_Inr:
  assumes "write_blobs uuid4_hex output_dir blobs st = Inr (rows, st')"
  shows "filter is_namespace_row rows = []
       \<and> (\<exists>new. written st' = written st @ new)
       \<and> (\<forall>(k, g) \<in> set blobs. \<exists>blob_path contents.
             blob_contents (map snd (sort_key fst g)) = Inr contents
             \<and> (blob_path, contents) \<in> set (written st')
             \<and> FileRow k blob_path \<in> set rows)"
  using assms
proof (induction blobs arbitrary: st rows)
  case Nil
  then show ?case by simp
next
  case (Cons kg blobs)
  obtain k g where kg: "kg = (k, g)" by (cases kg) auto
  from Cons.prems kg obtain blob_path st1 rows1 where
    w: "write_blob_file uuid4_hex (map snd (sort_key fst g)) output_dir st = Inr (blob_path, st1)"
    and r: "write_blobs uuid4_hex output_dir blobs st1 = Inr (rows1, st')"
    and rows: "rows = FileRow k blob_path # rows1"
    by (auto simp: ebind_eq_Inr)
  from write_blob_file_Inr [OF w] obtain contents where
    c: "blob_contents (map snd (sort_key fst g)) = Inr contents"
    and w1: "written st1 = written st @ [(blob_path, contents)]"
    by blast
  note ih = Cons.IH [OF r]
  from ih obtain new where new: "written st' = written st1 @ new" by blast
  have "\<exists>blob_path contents.
             blob_contents (map snd (sort_key fst g)) = Inr contents
             \<and> (blob_path, contents) \<in> set (written st')
             \<and> FileRow k blob_path \<in> set rows"
    using c w1 new rows by auto
  moreover have "\<forall>(k, g) \<in> set blobs. \<exists>blob_path contents.
             blob_contents (map snd (sort_key fst g)) = Inr contents
             \<and> (blob_path, contents) \<in> set (written st')
             \<and> FileRow k blob_path \<in> set rows"
    using ih rows by fastforce
  moreover have "filter is_namespace_row rows = []"
    using ih rows by (simp add: is_namespace_row_simps)
  moreover have "\<exists>new. written st' = written st @ new"
    using w1 new by simp
  ultimately show ?case
    using kg by simp
qed

lemma data_rows_Inr:
  assumes "data_rows es = Inr rows"
  shows "filter is_namespace_row rows = []
       \<and> (\<forall>e \<in> set es. \<exists>v. e_value e = Some v
             \<and> DataRow (e_key e) (format_encoding (map_type_encoding (e_type e))) (value_str v)
                 \<in> set rows)"
  using assms
proof (induction es arbitrary: rows)
  case Nil
  then show ?case by simp
next
  case (Cons a es)
  from Cons.prems obtain v rows1 where v: "e_value a = Some v"
    and r: "data_rows es = Inr rows1"
    and rows: "rows = DataRow (e_key a) (format_encoding (map_type_encoding (e_type a)))
                        (value_str v) # rows1"
    by (auto simp: ebind_eq_Inr split: option.splits)
  from Cons.IH [OF r] v rows show ?case
    by (auto simp: is_namespace_row_simps)
qed

lemma namespace_rows_Inr:
  assumes "namespace_rows uuid4_hex output_dir ns_name ns_entries st = Inr (rows, st')"
  shows "filter is_namespace_row rows = [NamespaceRow ns_name]"
    and "\<exists>new. written st' = written st @ new"
    and "\<forall>e \<in> set ns_entries. e_type e = ''BLOB_DATA'' \<longrightarrow>
           (\<exists>blob_path contents.
              blob_contents (map snd (sort_key fst (blob_group (e_key e) ns_entries)))
                = Inr contents
              \<and> (blob_path, contents) \<in> set (written st')
              \<and> FileRow (e_key e) blob_path \<in> set rows)"
    and "\<forall>e \<in> set ns_entries. e_type e \<noteq> ''BLOB_DATA'' \<and> e_type e \<noteq> ''BLOB_IDX'' \<longrightarrow>
           (\<exists>v. e_value e = Some v
              \<and> DataRow (e_key e) (format_encoding (map_type_encoding (e_type e))) (value_str v)
                  \<in> set rows)"
proof -
  from assms obtain blobs others file_rows drows where
    g: "group_entries ns_entries [] [] = Inr (blobs, others)"
    and w: "write_blobs uuid4_hex output_dir blobs st = Inr (file_rows, st')"
    and d: "data_rows others = Inr drows"
    and rows: "rows = NamespaceRow ns_name # file_rows @ drows"
    by (auto simp: namespace_rows_def ebind_eq_Inr)
  note wb = write_blobs_Inr [OF w]
  note dr = data_rows_Inr [OF d]
  show "filter is_namespace_row rows = [NamespaceRow ns_name]"
    using wb dr rows by (simp add: is_namespace_row_simps)
  show "\<exists>new. written st' = written st @ new"
    using wb by blast
  show "\<forall>e \<in> set ns_entries. e_type e = ''BLOB_DATA'' \<longrightarrow>
           (\<exists>blob_path contents.
              blob_contents (map snd (sort_key fst (blob_group (e_key e) ns_entries)))
                = Inr contents
              \<and> (blob_path, contents) \<in> set (written st')
              \<and> FileRow (e_key e) blob_path \<in> set rows)"
  proof (intro ballI impI)
    fix e assume e: "e \<in> set ns_entries" "e_type e = ''BLOB_DATA''"
    then have "e_key e \<in> dom (map_of blobs)"
      using group_entries_keys [OF g] by auto
    then obtain grp where m: "map_of blobs (e_key e) = Some grp" by auto
    then have "dict_get_list blobs (e_key e) = grp"
      by (simp add: dict_get_list_def)
    with group_entries_blobs [OF g, of "e_key e"] have grp: "grp = blob_group (e_key e) ns_entries"
      by (simp add: dict_get_list_def)
    from m have "(e_key e, grp) \<in> set blobs" by (rule map_of_SomeD)
    with wb obtain blob_path contents where
      "blob_contents (map snd (sort_key fst grp)) = Inr contents"
      "(blob_path, contents) \<in> set (written st')" "FileRow (e_key e) blob_path \<in> set file_rows"
      by fastforce
    with grp rows show "\<exists>blob_path contents.
              blob_contents (map snd (sort_key fst (blob_group (e_key e) ns_entries)))
                = Inr contents
              \<and> (blob_path, contents) \<in> set (written st')
              \<and> FileRow (e_key e) blob_path \<in> set rows"
      by auto
  qed
  show "\<forall>e \<in> set ns_entries. e_type e \<noteq> ''BLOB_DATA'' \<and> e_type e \<noteq> ''BLOB_IDX'' \<longrightarrow>
           (\<exists>v. e_value e = Some v
              \<and> DataRow (e_key e) (format_encoding (map_type_encoding (e_type e))) (value_str v)
                  \<in> set rows)"
  proof (intro ballI impI)
    fix e assume e: "e \<in> set ns_entries" "e_type e \<noteq> ''BLOB_DATA'' \<and> e_type e \<noteq> ''BLOB_IDX''"
    then have "e \<in> set others"
      using group_entries_others [OF g] by simp
    with dr obtain v where "e_value e = Some v"
      "DataRow (e_key e) (format_encoding (map_type_encoding (e_type e))) (value_str v) \<in> set drows"
      by blast
    with rows show "\<exists>v. e_value e = Some v
              \<and> DataRow (e_key e) (format_encoding (map_type_encoding (e_type e))) (value_str v)
                  \<in> set rows"
      by auto
  qed
qed

lemma namespaces_loop_Inr:
  assumes "namespaces_loop uuid4_hex output_dir entries_by_namespace items st = Inr (rows, st')"
  shows "filter is_namespace_row rows = map (\<lambda>item. NamespaceRow (snd item)) items
       \<and> (\<exists>new. written st' = written st @ new)
       \<and> (\<forall>item \<in> set items. \<exists>st1 rows1 st2.
             namespace_rows uuid4_hex output_dir (snd item)
               (dict_get_list entries_by_namespace (snd item)) st1 = Inr (rows1, st2)
             \<and> set rows1 \<subseteq> set rows \<and> set (written st2) \<subseteq> set (written st'))"
  using assms
proof (induction items arbitrary: st rows)
  case Nil
  then show ?case by simp
next
  case (Cons item items)
  obtain ns_id ns_name where item: "item = (ns_id, ns_name)" by (cases item) auto
  from Cons.prems item obtain rows1 st1 rows2 where
    n: "namespace_rows uuid4_hex output_dir ns_name
          (dict_get_list entries_by_namespace ns_name) st = Inr (rows1, st1)"
    and r: "namespaces_loop uuid4_hex output_dir entries_by_namespace items st1 = Inr (rows2, st')"
    and rows: "rows = rows1 @ rows2"
    by (auto simp: ebind_eq_Inr)
  note nr = namespace_rows_Inr(1,2) [OF n]
  note ih = Cons.IH [OF r]
  from ih obtain new where new: "written st' = written st1 @ new" by blast
  have a: "filter is_namespace_row rows = map (\<lambda>item. NamespaceRow (snd item)) (item # items)"
    using nr(1) ih rows item by simp
  have b: "\<exists>new. written st' = written st @ new"
    using nr(2) new by auto
  have c: "\<exists>st1 rows1 st2.
             namespace_rows uuid4_hex output_dir (snd item)
               (dict_get_list entries_by_namespace (snd item)) st1 = Inr (rows1, st2)
             \<and> set rows1 \<subseteq> set rows \<and> set (written st2) \<subseteq> set (written st')"
    using n rows new item by fastforce
  have d: "\<forall>item \<in> set items. \<exists>st1 rows1 st2.
             namespace_rows uuid4_hex output_dir (snd item)
               (dict_get_list entries_by_namespace (snd item)) st1 = Inr (rows1, st2)
             \<and> set rows1 \<subseteq> set rows \<and> set (written st2) \<subseteq> set (written st')"
  proof
    fix it assume "it \<in> set items"
    with ih obtain sa ra sb where
      "namespace_rows uuid4_hex output_dir (snd it)
               (dict_get_list entries_by_namespace (snd it)) sa = Inr (ra, sb)"
      "set ra \<subseteq> set rows2" "set (written sb) \<subseteq> set (written st')"
      by blast
    with rows show "\<exists>st1 rows1 st2.
             namespace_rows uuid4_hex output_dir (snd it)
               (dict_get_list entries_by_namespace (snd it)) st1 = Inr (rows1, st2)
             \<and> set rows1 \<subseteq> set rows \<and> set (written st2) \<subseteq> set (written st')"
      by auto
  qed
  from a b c d show ?case by simp
qed

lemma emap_Inr_map:
  assumes "emap g xs = Inr ys"
  shows "ys = map (\<lambda>x. case g x of Inr y \<Rightarrow> y | Inl err \<Rightarrow> d) xs
       \<and> list_all (\<lambda>x. g x = Inr (case g x of Inr y \<Rightarrow> y | Inl err \<Rightarrow> d)) xs"
  using assms
proof (induction xs arbitrary: ys)
  case Nil
  then show ?case by simp
next
  case (Cons x xs)
  from Cons.prems obtain y ys' where y: "g x = Inr y" and r: "emap g xs = Inr ys'"
    and ys: "ys = y # ys'"
    by (auto simp: ebind_eq_Inr)
  from Cons.IH [OF r] y ys show ?case by simp
qed

lemma insort_key_pairs:
  "insort_key fst (h x, x) (map (\<lambda>y. (h y, y)) ys) = map (\<lambda>y. (h y, y)) (insort_key h x ys)"
  by (induction ys) simp_all

lemma sort_key_pairs:
  "sort_key fst (map (\<lambda>y. (h y, y)) xs) = map (\<lambda>y. (h y, y)) (sort_key h xs)"
  by (induction xs) (simp_all add: insort_key_pairs)

lemma sorted_namespaces_Inr:
  assumes "sorted_namespaces namespace_map = Inr items"
  shows "items = sort_key namespace_id namespace_map"
    and "list_all (\<lambda>x. py_int (fst x) = Inr (namespace_id x)) namespace_map"
proof -
  from assms obtain keys where k: "emap (\<lambda>x. py_int (fst x)) namespace_map = Inr keys"
    and items: "items = map snd (sort_key fst (zip keys namespace_map))"
    by (auto simp: sorted_namespaces_def ebind_eq_Inr)
  from emap_Inr_map [OF k, of 0] have keys: "keys = map namespace_id namespace_map"
    and ok: "list_all (\<lambda>x. py_int (fst x) = Inr (namespace_id x)) namespace_map"
    by (simp_all add: namespace_id_def [abs_def])
  have "zip keys namespace_map = map (\<lambda>y. (namespace_id y, y)) namespace_map"
    by (simp add: keys zip_map1 zip_same_conv_map)
  with items show "items = sort_key namespace_id namespace_map"
    by (simp add: sort_key_pairs comp_def)
  from ok show "list_all (\<lambda>x. py_int (fst x) = Inr (namespace_id x)) namespace_map" .
qed

lemma filter_same_key:
  assumes "distinct (map f xs)" and "k \<in> set xs"
  shows "filter (\<lambda>x. f k = f x) xs = [k]"
  using assms
proof (induction xs)
  case Nil
  then show ?case by simp
next
  case (Cons a xs)
  show ?case
  proof (cases "a = k")
    case True
    with Cons.prems(1) have "filter (\<lambda>x. f k = f x) xs = []"
      by (auto simp: filter_empty_conv)
    with True show ?thesis by simp
  next
    case False
    with Cons.prems have "k \<in> set xs" "f a \<noteq> f k" by auto
    with Cons.IH Cons.prems(1) show ?thesis by simp
  qed
qed

lemma sort_key_permutation:
  assumes "mset ys = mset xs" and "distinct (map f xs)"
  shows "sort_key f ys = sort_key f xs"
proof (rule properties_for_sort_key [symmetric])
  show "mset (sort_key f ys) = mset xs"
    using assms(1) by simp
  show "sorted (map f (sort_key f ys))"
    by (rule sorted_sort_key)
  fix k assume "k \<in> set (sort_key f ys)"
  then have kx: "k \<in> set xs"
    using assms(1) by (metis mset_eq_setD set_sort)
  have "mset (map f (sort_key f ys)) = mset (map f xs)"
    using assms(1) by simp
  with assms(2) have "distinct (map f (sort_key f ys))"
    by (metis distinct_count_atmost_1 mset_eq_setD set_mset_mset)
  with \<open>k \<in> set (sort_key f ys)\<close> have "filter (\<lambda>x. f k = f x) (sort_key f ys) = [k]"
    by (rule filter_same_key [rotated])
  moreover from assms(2) kx have "filter (\<lambda>x. f k = f x) xs = [k]"
    by (rule filter_same_key)
  ultimately show "filter (\<lambda>x. f k = f x) (sort_key f ys) = filter (\<lambda>x. f k = f x) xs"
    by simp
qed

lemma py_int_examples:
  "py_int ''10'' = Inr 10" "py_int ''0'' = Inr 0" "py_int ''2'' = Inr 2"
  by (simp_all add: py_int_def str_isspace_def is_digit_def)

lemma ex_sorted:
  "sorted_namespaces [(''10'', ''wifi''), (''0'', ''System''), (''2'', ''app'')]
     = Inr [(''0'', ''System''), (''2'', ''app''), (''10'', ''wifi'')]"
  by (simp add: sorted_namespaces_def py_int_examples ebind_simps)

lemma ex_run:
  "generate_csv str_nat ex_record ''blobs'' empty_store
     = Inr (ex_rows, \<lparr>uuid_calls = 1, written = [(''blobs/blob_0.bin'', [0xAA, 0xBB])]\<rparr>)"
  apply (simp add: generate_csv_def ex_sorted ebind_simps group_by_namespace_def ex_record_def
        dict_get_list_def namespace_rows_def write_blob_file_def blob_contents_def
        bytes_fromhex_def hex_value_def ascii_isspace_def path_join_def empty_store_def
        format_encoding_def map_type_encoding_def type_mapping_def value_str_def str_int_def
        ex_rows_def)
  apply (simp add: Let_def ebind_simps char_of_eq_iff)
  done

lemma is_digit_char_of: "d < 10 \<Longrightarrow> is_digit (char_of (48 + d :: nat))"
  by (simp add: is_digit_def Let_def)


lemma str_nat_digits: "list_all is_digit (str_nat n)"
proof (induction n rule: str_nat.induct)
  case (1 n)
  show ?case
  proof (cases "n < 10")
    case True
    then show ?thesis by (simp add: is_digit_char_of)
  next
    case False
    then have s: "str_nat n = str_nat (n div 10) @ [char_of (48 + n mod 10)]"
      by (subst str_nat.simps) simp
    from 1 [OF False] show ?thesis
      by (simp add: s is_digit_char_of del: str_nat.simps)
  qed
qed

lemma int_digits_append_digit:
  assumes "d < (10 :: nat)" and "list_all is_digit cs"
  shows "int_digits (cs @ [char_of (48 + d)]) acc =
     (case int_digits cs acc of None \<Rightarrow> None | Some n \<Rightarrow> Some (10 * n + d))"
  using assms
  by (induction cs arbitrary: acc) (simp_all add: is_digit_char_of)

lemma int_digits_str_nat: "int_digits (str_nat n) 0 = Some n"
proof (induction n rule: str_nat.induct)
  case (1 n)
  show ?case
  proof (cases "n < 10")
    case True
    then show ?thesis by (simp add: is_digit_char_of)
  next
    case False
    then have s: "str_nat n = str_nat (n div 10) @ [char_of (48 + n mod 10)]"
      by (subst str_nat.simps) simp
    from 1 [OF False] show ?thesis
      by (simp add: s int_digits_append_digit str_nat_digits del: str_nat.simps)
  qed
qed

lemma str_nat_not_Nil: "str_nat n \<noteq> []"
  by (subst str_nat.simps) (simp del: str_nat.simps)

lemma is_digit_not_space: "is_digit c \<Longrightarrow> \<not> str_isspace c"
  by (auto simp: is_digit_def str_isspace_def Let_def)

lemma dropWhile_digits:
  assumes "list_all is_digit cs"
  shows "dropWhile str_isspace cs = cs"
  using assms by (cases cs) (simp_all add: is_digit_not_space)

lemma strip_digits:
  assumes "list_all is_digit cs"
  shows "rev (dropWhile str_isspace (rev (dropWhile str_isspace cs))) = cs"
proof -
  from assms have "list_all is_digit (rev cs)" by (simp add: list_all_iff)
  then have "dropWhile str_isspace (rev cs) = rev cs" by (rule dropWhile_digits)
  with dropWhile_digits [OF assms] show ?thesis by simp
qed

lemma strip_minus_digits:
  assumes "list_all is_digit cs" and "cs \<noteq> []"
  shows "rev (dropWhile str_isspace (rev (dropWhile str_isspace (CHR ''-'' # cs)))) = CHR ''-'' # cs"
proof -
  have m: "\<not> str_isspace CHR ''-''" by (simp add: str_isspace_def)
  from assms(2) obtain c cs' where r: "rev cs = c # cs'" by (cases "rev cs") auto
  from assms(1) have "list_all is_digit (rev cs)" by (simp add: list_all_iff)
  with r have "\<not> str_isspace c" by (simp add: is_digit_not_space)
  with r have "dropWhile str_isspace (rev cs @ [CHR ''-'']) = rev cs @ [CHR ''-'']" by simp
  with m show ?thesis by simp
qed

lemma py_int_digits:
  assumes "list_all is_digit cs" and "cs \<noteq> []"
  shows "py_int cs = (case int_digits cs 0 of Some n \<Rightarrow> Inr (int n) | None \<Rightarrow> Inl ValueError)"
proof -
  from assms have h: "is_digit (hd cs)" by (cases cs) simp_all
  then have pm: "hd cs \<noteq> CHR ''-''" "hd cs \<noteq> CHR ''+''"
    by (auto simp: is_digit_def)
  show ?thesis
    unfolding py_int_def strip_digits [OF assms(1)]
    using assms(2) h pm by (simp add: Let_def split: option.split)
qed

lemma py_int_minus_digits:
  assumes "list_all is_digit cs" and "cs \<noteq> []"
  shows "py_int (CHR ''-'' # cs)
           = (case int_digits cs 0 of Some n \<Rightarrow> Inr (- int n) | None \<Rightarrow> Inl ValueError)"
proof -
  from assms have h: "is_digit (hd cs)" by (cases cs) simp_all
  show ?thesis
    unfolding py_int_def strip_minus_digits [OF assms]
    using assms(2) h by (simp add: Let_def split: option.split)
qed

lemma py_int_str_int: "py_int (str_int k) = Inr k"
proof (cases "k < 0")
  case False
  have "py_int (str_nat (nat k)) = Inr (int (nat k))"
    by (simp only: py_int_digits [OF str_nat_digits str_nat_not_Nil] int_digits_str_nat
          option.case)
  with False show ?thesis
    by (simp only: str_int_def if_False) simp
next
  case True
  have "py_int (CHR ''-'' # str_nat (nat (- k))) = Inr (- int (nat (- k)))"
    by (simp only: py_int_minus_digits [OF str_nat_digits str_nat_not_Nil] int_digits_str_nat
          option.case)
  with True show ?thesis
    by (simp only: str_int_def if_True) simp
qed

lemma namespace_id_str_int: "namespace_id (str_int k, ns_name) = k"
  by (simp add: namespace_id_def py_int_str_int)

lemma ex_sorted_reordered:
  "sorted_namespaces [(''2'', ''app''), (''10'', ''wifi''), (''0'', ''System'')]
     = Inr [(''0'', ''System''), (''2'', ''app''), (''10'', ''wifi'')]"
  by (simp add: sorted_namespaces_def py_int_examples ebind_simps)

lemma ex_run_reordered:
  "generate_csv str_nat ex_record_reordered ''blobs'' empty_store
     = Inr (ex_rows, \<lparr>uuid_calls = 1, written = [(''blobs/blob_0.bin'', [0xAA, 0xBB])]\<rparr>)"
  apply (simp add: generate_csv_def ex_sorted_reordered ebind_simps group_by_namespace_def
        ex_record_reordered_def ex_record_def
        dict_get_list_def namespace_rows_def write_blob_file_def blob_contents_def
        bytes_fromhex_def hex_value_def ascii_isspace_def path_join_def empty_store_def
        format_encoding_def map_type_encoding_def type_mapping_def value_str_def str_int_def
        ex_rows_def)
  apply (simp add: Let_def ebind_simps char_of_eq_iff)
  done


lemma generate_csv_Inr:
  assumes "generate_csv uuid4_hex jd blobs_output_dir st = Inr (rows, st')"
  shows "filter is_namespace_row rows
           = map (\<lambda>item. NamespaceRow (snd item)) (sort_key namespace_id (j_namespaces jd))"
    and "list_all (\<lambda>item. py_int (fst item) = Inr (namespace_id item)) (j_namespaces jd)"
    and "\<forall>item \<in> set (j_namespaces jd). \<exists>st1 rows1 st2.
           namespace_rows uuid4_hex blobs_output_dir (snd item)
             (filter (\<lambda>e. e_namespace e = snd item) (j_entries jd)) st1 = Inr (rows1, st2)
           \<and> set rows1 \<subseteq> set rows \<and> set (written st2) \<subseteq> set (written st')"
proof -
  from assms obtain items rows0 where
    s: "sorted_namespaces (j_namespaces jd) = Inr items"
    and l: "namespaces_loop uuid4_hex blobs_output_dir (group_by_namespace (j_entries jd)) items st
              = Inr (rows0, st')"
    and rows: "rows = Header # rows0"
    by (auto simp: generate_csv_def ebind_eq_Inr)
  note sn = sorted_namespaces_Inr [OF s]
  note nl = namespaces_loop_Inr [OF l]
  show "filter is_namespace_row rows
           = map (\<lambda>item. NamespaceRow (snd item)) (sort_key namespace_id (j_namespaces jd))"
    using nl sn(1) rows by (simp add: is_namespace_row_simps)
  show "list_all (\<lambda>item. py_int (fst item) = Inr (namespace_id item)) (j_namespaces jd)"
    by (rule sn(2))
  show "\<forall>item \<in> set (j_namespaces jd). \<exists>st1 rows1 st2.
           namespace_rows uuid4_hex blobs_output_dir (snd item)
             (filter (\<lambda>e. e_namespace e = snd item) (j_entries jd)) st1 = Inr (rows1, st2)
           \<and> set rows1 \<subseteq> set rows \<and> set (written st2) \<subseteq> set (written st')"
  proof
    fix item assume "item \<in> set (j_namespaces jd)"
    then have "item \<in> set items" by (simp add: sn(1))
    with nl obtain st1 rows1 st2 where
      "namespace_rows uuid4_hex blobs_output_dir (snd item)
         (dict_get_list (group_by_namespace (j_entries jd)) (snd item)) st1 = Inr (rows1, st2)"
      "set rows1 \<subseteq> set rows0" "set (written st2) \<subseteq> set (written st')"
      by blast
    with rows show "\<exists>st1 rows1 st2.
           namespace_rows uuid4_hex blobs_output_dir (snd item)
             (filter (\<lambda>e. e_namespace e = snd item) (j_entries jd)) st1 = Inr (rows1, st2)
           \<and> set rows1 \<subseteq> set rows \<and> set (written st2) \<subseteq> set (written st')"
      unfolding dict_get_list_group_by_namespace by auto
  qed
qed

section \<open>Claims about the CSV encoder\<close>

text \<open>
  C7. For every structured record, CsvEncoder emits namespace rows sorted ascending by
  numeric namespace id, regardless of the order in which namespaces or entries were first
  seen in the record.

  When \<open>generate_csv\<close> returns, the namespace rows among its lines are, in order, the
  names of the items of the table sorted (stably) by \<open>int\<close> of their keys: the ids of
  successive rows ascend, every item has its row, and \<open>int\<close> of the decimal text of an
  id \<open>k\<close>, as the decoder writes the keys, is \<open>k\<close>. The entries have no part in
  the order, and a record whose table holds the same items with different ids, in
  any other order, has the same namespace rows.
\<close>

theorem namespace_rows_sorted_by_numeric_id:
  assumes "generate_csv uuid4_hex jd blobs_output_dir st = Inr (rows, st')"
  shows "filter is_namespace_row rows
           = map (\<lambda>item. NamespaceRow (snd item)) (sort_key namespace_id (j_namespaces jd))
       \<and> sorted (map namespace_id (sort_key namespace_id (j_namespaces jd)))
       \<and> mset (sort_key namespace_id (j_namespaces jd)) = mset (j_namespaces jd)
       \<and> list_all (\<lambda>item. py_int (fst item) = Inr (namespace_id item)) (j_namespaces jd)
       \<and> namespace_id (str_int k, ns_name) = k
       \<and> (mset (j_namespaces jd2) = mset (j_namespaces jd)
            \<and> distinct (map namespace_id (j_namespaces jd))
            \<and> generate_csv uuid4_hex2 jd2 blobs_output_dir2 st2 = Inr (rows2, st2')
          \<longrightarrow> filter is_namespace_row rows2 = filter is_namespace_row rows)"
proof -
  note g = generate_csv_Inr(1,2) [OF assms]
  have "filter is_namespace_row rows2 = filter is_namespace_row rows"
    if p: "mset (j_namespaces jd2) = mset (j_namespaces jd)"
      and d: "distinct (map namespace_id (j_namespaces jd))"
      and r: "generate_csv uuid4_hex2 jd2 blobs_output_dir2 st2 = Inr (rows2, st2')"
  proof -
    from sort_key_permutation [OF p d]
    have "sort_key namespace_id (j_namespaces jd2) = sort_key namespace_id (j_namespaces jd)" .
    with generate_csv_Inr(1) [OF r] g(1) show ?thesis by simp
  qed
  with g show ?thesis
    by (simp add: namespace_id_str_int)
qed

theorem namespace_rows_sorted_by_numeric_id_witness:
  "generate_csv str_nat ex_record ''blobs'' empty_store
     = Inr (ex_rows, \<lparr>uuid_calls = 1, written = [(''blobs/blob_0.bin'', [0xAA, 0xBB])]\<rparr>)
   \<and> j_namespaces ex_record = [(''10'', ''wifi''), (''0'', ''System''), (''2'', ''app'')]
   \<and> j_namespaces ex_record_reordered = [(''2'', ''app''), (''10'', ''wifi''), (''0'', ''System'')]
   \<and> map namespace_id (j_namespaces ex_record) = [10, 0, 2]
   \<and> filter is_namespace_row ex_rows
       = [NamespaceRow ''System'', NamespaceRow ''app'', NamespaceRow ''wifi'']
   \<and> sort_key namespace_id (j_namespaces ex_record)
       = [(''0'', ''System''), (''2'', ''app''), (''10'', ''wifi'')]
   \<and> generate_csv str_nat ex_record_reordered ''blobs'' empty_store
       = Inr (ex_rows, \<lparr>uuid_calls = 1, written = [(''blobs/blob_0.bin'', [0xAA, 0xBB])]\<rparr>)"
proof -
  have ids: "map namespace_id (j_namespaces ex_record) = [10, 0, 2]"
    by (simp add: ex_record_def namespace_id_def py_int_examples)
  have s: "sort_key namespace_id (j_namespaces ex_record)
             = [(''0'', ''System''), (''2'', ''app''), (''10'', ''wifi'')]"
    by (simp add: ex_record_def namespace_id_def py_int_examples)
  have "filter is_namespace_row ex_rows
          = map (\<lambda>item. NamespaceRow (snd item)) (sort_key namespace_id (j_namespaces ex_record))"
    using namespace_rows_sorted_by_numeric_id [OF ex_run] by simp
  with s ids show ?thesis
    by (simp add: ex_run ex_run_reordered) (simp add: ex_record_def ex_record_reordered_def)
qed




end
